theory Spec2Isabelle
  imports Complex_Main "HOL-Library.Word"
begin

section \<open>Numbers and buffers\<close>

text \<open>
  A JavaScript \<open>number\<close> is modelled as a \<^typ>\<open>real\<close>: sums, products, quotients and
  comparisons are the exact ones, and the rounding of IEEE doubles is left out.  Indices
  and sample counts are \<^typ>\<open>nat\<close>.

  An \<open>ArrayBuffer\<close> is its sequence of bytes.  An \<open>AudioBuffer\<close> is represented by its
  frame count and sample rate, from which \<open>buffer.duration\<close> (in seconds) is derived;
  the sample values written by \<open>decodePCM\<close> are not read by any timing or scheduling
  path and are not represented.
\<close>

type_synonym ArrayBuffer = "8 word list"

record AudioBuffer =
  frames :: nat
  sampleRate :: nat

definition duration :: "AudioBuffer \<Rightarrow> real" where
  "duration b = real (frames b) / real (sampleRate b)"

text \<open>
  \<open>decodePCM\<close> (part_001, lines 141-154).  The body runs inside \<open>try\<close>; every exception
  gives \<open>null\<close>.  Two calls of the body can throw on a well-formed \<open>ArrayBuffer\<close>:
  \<open>new Int16Array(arrayBuffer)\<close> raises a RangeError when the byte length is odd, and
  \<open>ctx.createBuffer(1, n, 24000)\<close> raises NotSupportedError when the frame count \<open>n\<close>
  is zero.  Otherwise the buffer has one frame per 16-bit sample at 24000 Hz.
\<close>

definition decodePCM :: "ArrayBuffer \<Rightarrow> AudioBuffer option" where
  "decodePCM arrayBuffer =
     (if odd (length arrayBuffer) then None
      else let n = length arrayBuffer div 2
           in if n = 0 then None
              else Some \<lparr>frames = n, sampleRate = 24000\<rparr>)"

section \<open>Slides and slide timings\<close>

text \<open>
  \<open>QuizSlide\<close> (types.ts).  The text fields (question, options, correct answer index,
  explanation, difficulty) are only drawn; the preload and the scheduler read the
  fields below.
\<close>

record QuizSlide =
  slideId :: string
  backgroundImage :: "string option"
  questionAudio :: "ArrayBuffer option"
  answerAudio :: "ArrayBuffer option"

text \<open>\<open>SlideTiming\<close> (part_001, lines 22-29); the field \<open>end\<close> is \<open>endTime\<close> here.\<close>

record SlideTiming =
  start :: real
  questionAudioDuration :: real
  thinkingStart :: real
  revealStart :: real
  answerAudioDuration :: real
  endTime :: real

text \<open>
  The state the timing loop of \<open>prepareAssets\<close> works on (part_001, lines 138-192): the
  two shared buffer maps \<open>questionBuffersRef.current\<close> and \<open>answerBuffersRef.current\<close>,
  keyed by slide index, and the locals \<open>newTimings\<close> and \<open>accumulatedTime\<close>.
\<close>

record Buffers =
  questionBuffers :: "nat \<rightharpoonup> AudioBuffer"
  answerBuffers :: "nat \<rightharpoonup> AudioBuffer"

record BuildState = Buffers +
  newTimings :: "SlideTiming list"
  accumulatedTime :: real

text \<open>One iteration of the loop body after the cancellation check (lines 158-191).\<close>

definition slideStep :: "real \<Rightarrow> nat \<Rightarrow> QuizSlide \<Rightarrow> BuildState \<Rightarrow> BuildState" where
  "slideStep timerDuration i slide st =
     (let qDec = (case questionAudio slide of None \<Rightarrow> None | Some ab \<Rightarrow> decodePCM ab);
          aDec = (case answerAudio slide of None \<Rightarrow> None | Some ab \<Rightarrow> decodePCM ab);
          qDur = (case qDec of None \<Rightarrow> 3000 | Some buffer \<Rightarrow> duration buffer * 1000);
          aDur = (case aDec of None \<Rightarrow> 2000 | Some buffer \<Rightarrow> duration buffer * 1000);
          thinkingDurMs = timerDuration * 1000;
          revealDurMs = max 2000 (aDur + 1000);
          acc = accumulatedTime st
      in st\<lparr>newTimings := newTimings st @
               [\<lparr>start = acc,
                 questionAudioDuration = qDur,
                 thinkingStart = acc + qDur + 500,
                 revealStart = acc + qDur + 500 + thinkingDurMs,
                 answerAudioDuration = aDur,
                 endTime = acc + qDur + 500 + thinkingDurMs + revealDurMs\<rparr>],
             accumulatedTime := acc + (qDur + 500 + thinkingDurMs + revealDurMs),
             questionBuffers := (case qDec of None \<Rightarrow> questionBuffers st
                                 | Some buffer \<Rightarrow> (questionBuffers st)(i \<mapsto> buffer)),
             answerBuffers := (case aDec of None \<Rightarrow> answerBuffers st
                               | Some buffer \<Rightarrow> (answerBuffers st)(i \<mapsto> buffer))\<rparr>)"

text \<open>
  The loop \<open>for (let i = 0; i < slides.length; i++)\<close>, from index \<open>i\<close> over the slides
  that remain.  Each iteration first tests the \<open>cancelled\<close> flag and returns from
  \<open>prepareAssets\<close> (\<open>None\<close>) when it is set; the loop has no suspension point, so the
  flag is the same in every iteration.
\<close>

fun timingsLoop :: "bool \<Rightarrow> real \<Rightarrow> nat \<Rightarrow> QuizSlide list \<Rightarrow> BuildState \<Rightarrow> BuildState option" where
  "timingsLoop cancelled timerDuration i [] st = Some st"
| "timingsLoop cancelled timerDuration i (slide # rest) st =
     (if cancelled then None
      else timingsLoop cancelled timerDuration (Suc i) rest (slideStep timerDuration i slide st))"

text \<open>
  The timeline an uncancelled preload commits: \<open>setTimings(newTimings)\<close> and
  \<open>setTotalDuration(accumulatedTime)\<close> (lines 194-198), from empty \<open>newTimings\<close> and
  \<open>accumulatedTime = 0\<close>, over the buffer maps as they stand.
\<close>

definition buildTimeline ::
  "real \<Rightarrow> QuizSlide list \<Rightarrow> (nat \<rightharpoonup> AudioBuffer) \<Rightarrow> (nat \<rightharpoonup> AudioBuffer)
     \<Rightarrow> (SlideTiming list \<times> real) option" where
  "buildTimeline timerDuration slides qb ab =
     (case timingsLoop False timerDuration 0 slides
             \<lparr>questionBuffers = qb, answerBuffers = ab, newTimings = [], accumulatedTime = 0\<rparr> of
        None \<Rightarrow> None
      | Some st \<Rightarrow> Some (newTimings st, accumulatedTime st))"

text \<open>
  The durations the timing properties are stated over, written from their description:
  the decoded narration length in milliseconds, or the fallback when the audio is absent
  or does not decode.
\<close>

definition decodedMs :: "ArrayBuffer option \<Rightarrow> real option" where
  "decodedMs a = (case a of None \<Rightarrow> None
                  | Some ab \<Rightarrow> map_option (\<lambda>b. duration b * 1000) (decodePCM ab))"

definition qDurOf :: "QuizSlide \<Rightarrow> real" where
  "qDurOf slide = (case decodedMs (questionAudio slide) of None \<Rightarrow> 3000 | Some d \<Rightarrow> d)"

definition aDurOf :: "QuizSlide \<Rightarrow> real" where
  "aDurOf slide = (case decodedMs (answerAudio slide) of None \<Rightarrow> 2000 | Some d \<Rightarrow> d)"

section \<open>Difficulty counts\<close>




section \<open>The player component\<close>

text \<open>
  The state of one \<open>VideoPlayer\<close> component: its props, its React state and its refs
  (part_001, lines 41-76).  Audio source nodes are numbered as they are created.  Three
  fields are observers added by the model: \<open>nextNode\<close> numbers the source nodes,
  \<open>soundingVoice\<close> is the set of narration sources that were started and have neither
  been stopped nor run out, and \<open>trace\<close> lists the calls made to the audio graph, the
  canvas and the recorder, in order.
\<close>

datatype TrackType = Question | Answer

datatype CueType = TickCue | EndCue

datatype RecorderState = Inactive | Recording

datatype Command =
    PlayVoiceTrack nat TrackType real
  | VoiceStop nat
  | VoiceStart nat nat TrackType real
  | MusicStop nat
  | MusicStart nat real
  | PlayTickSound CueType
  | SfxStart
  | DrawSlide nat real real
  | DrawFinished
  | RecorderStart
  | RecorderStop
  | Download "nat list"

record Component = Buffers +
  slides :: "QuizSlide list"
  timerDuration :: real
  enableSfx :: bool
  isPlaying :: bool
  currentTime :: real
  isRecording :: bool
  isReady :: bool
  timings :: "SlideTiming list"
  totalDuration :: real
  images :: "string \<rightharpoonup> string"
  audioContext :: bool
  masterGain :: bool
  sfxGain :: bool
  dest :: bool
  voiceNode :: "nat option"
  bgMusicNode :: "nat option"
  bgMusicBuffer :: "AudioBuffer option"
  countdownSfxBuffer :: "AudioBuffer option"
  previousTime :: real
  mediaRecorder :: "RecorderState option"
  chunks :: "nat list"
  timer :: "(bool \<times> real) option"
  currentAudioTrack :: "(nat \<times> TrackType) option"
  lastTickTime :: int
  nextNode :: nat
  soundingVoice :: "nat set"
  trace :: "Command list"

definition emit :: "Command \<Rightarrow> Component \<Rightarrow> Component" where
  "emit c p = p\<lparr>trace := trace p @ [c]\<rparr>"

text \<open>
  \<open>try { voiceNodeRef.current.stop(); } catch(e){}\<close> under \<open>if (voiceNodeRef.current)\<close>,
  and the same for the music node.  The refs keep the node.
\<close>

definition stopVoiceNode :: "Component \<Rightarrow> Component" where
  "stopVoiceNode p =
     (case voiceNode p of None \<Rightarrow> p
      | Some n \<Rightarrow> emit (VoiceStop n) (p\<lparr>soundingVoice := soundingVoice p - {n}\<rparr>))"

definition stopBgMusicNode :: "Component \<Rightarrow> Component" where
  "stopBgMusicNode p = (case bgMusicNode p of None \<Rightarrow> p | Some n \<Rightarrow> emit (MusicStop n) p)"

text \<open>
  The remainder operator \<open>%\<close> on numbers: the quotient is truncated towards zero.  (For a
  zero divisor JavaScript gives NaN; a decoded music buffer has a positive duration.)
\<close>

definition jsRem :: "real \<Rightarrow> real \<Rightarrow> real" where
  "jsRem x d = x - d * of_int (if 0 \<le> x / d then \<lfloor>x / d\<rfloor> else \<lceil>x / d\<rceil>)"

text \<open>\<open>startBgMusic\<close> (lines 211-233).\<close>

definition startBgMusic :: "real \<Rightarrow> Component \<Rightarrow> Component" where
  "startBgMusic startTimeOffset p =
     (if \<not> audioContext p \<or> \<not> masterGain p then p
      else case bgMusicBuffer p of None \<Rightarrow> p
        | Some buffer \<Rightarrow>
            let p1 = stopBgMusicNode p;
                source = nextNode p1;
                offset = jsRem startTimeOffset (duration buffer)
            in emit (MusicStart source offset) (p1\<lparr>nextNode := Suc source, bgMusicNode := Some source\<rparr>))"

text \<open>
  \<open>playVoiceTrack\<close> (lines 235-260).  The call itself is recorded first, with its
  offset in milliseconds; a \<open>VoiceStart\<close> records \<open>source.start\<close> with its offset in seconds.
\<close>

definition playVoiceTrack :: "nat \<Rightarrow> TrackType \<Rightarrow> real \<Rightarrow> Component \<Rightarrow> Component" where
  "playVoiceTrack slideIndex type offsetMs p0 =
     (let p = emit (PlayVoiceTrack slideIndex type offsetMs) p0
      in
      if \<not> audioContext p \<or> \<not> masterGain p then p
      else case (if type = Question then questionBuffers p else answerBuffers p) slideIndex of
          None \<Rightarrow> p
        | Some buffer \<Rightarrow>
            let p1 = stopVoiceNode p
            in if offsetMs / 1000 < duration buffer
               then let source = nextNode p1
                    in emit (VoiceStart source slideIndex type (offsetMs / 1000))
                         (p1\<lparr>nextNode := Suc source,
                             soundingVoice := insert source (soundingVoice p1),
                             voiceNode := Some source,
                             currentAudioTrack := Some (slideIndex, type)\<rparr>)
               else p1)"

text \<open>
  \<open>playTickSound\<close> (lines 262-276).  The call itself is recorded first; a sound is started
  only for a tick with a custom countdown buffer, an \<open>'end'\<close> call falls through.
\<close>

definition playTickSound :: "CueType \<Rightarrow> Component \<Rightarrow> Component" where
  "playTickSound type p0 =
     (let p = emit (PlayTickSound type) p0
      in if \<not> audioContext p \<or> \<not> sfxGain p \<or> \<not> enableSfx p then p
         else if type = TickCue \<and> countdownSfxBuffer p \<noteq> None then emit SfxStart p
         else p)"

text \<open>
  The loop that finds the active slide, with its \<open>break\<close> (lines 758-763 and 821-827):
  the first index whose \<open>[start, end)\<close> holds the time, \<open>None\<close> for \<open>-1\<close>.
\<close>

fun findActiveFrom :: "nat \<Rightarrow> SlideTiming list \<Rightarrow> real \<Rightarrow> nat option" where
  "findActiveFrom i [] t = None"
| "findActiveFrom i (x # xs) t =
     (if start x \<le> t \<and> t < endTime x then Some i else findActiveFrom (Suc i) xs t)"

definition findActive :: "SlideTiming list \<Rightarrow> real \<Rightarrow> nat option" where
  "findActive ts t = findActiveFrom 0 ts t"

text \<open>
  \<open>drawSlideState\<close> (lines 721-745).  \<open>playing\<close> is the \<open>isPlaying\<close> of the render whose
  closure is running.  The two layouts draw the same slide at the same local time and
  opacity; the drawing is recorded as one \<open>DrawSlide\<close>.
\<close>

definition drawSlideState :: "bool \<Rightarrow> nat \<Rightarrow> real \<Rightarrow> real \<Rightarrow> Component \<Rightarrow> Component" where
  "drawSlideState playing slideIndex localTime alpha p =
     (if \<not> slideIndex < length (slides p) \<or> \<not> slideIndex < length (timings p) then p
      else
        let timing = timings p ! slideIndex;
            isThinking = (thinkingStart timing - start timing \<le> localTime
                          \<and> localTime < revealStart timing - start timing);
            isRevealed = (revealStart timing - start timing \<le> localTime);
            thinkingElapsed = localTime - (thinkingStart timing - start timing);
            timeLeft = max 0 \<lceil>timerDuration p - thinkingElapsed / 1000\<rceil>;
            p1 = (if playing \<and> isThinking \<and> of_int timeLeft \<le> timerDuration p \<and> 0 < timeLeft
                     \<and> timeLeft \<noteq> lastTickTime p
                  then (playTickSound TickCue p)\<lparr>lastTickTime := timeLeft\<rparr>
                  else p);
            p2 = (if isRevealed \<and> lastTickTime p1 \<noteq> - 99
                  then (if playing then playTickSound EndCue p1 else p1)\<lparr>lastTickTime := - 99\<rparr>
                  else p1)
        in emit (DrawSlide slideIndex localTime alpha) p2)"

text \<open>
  \<open>renderFrame\<close> (lines 747-799).  The canvas exists once the component is ready.  The
  global progress bar of the cinematic layout reads but does not change the state.
\<close>

definition TRANSITION_DURATION :: real where
  "TRANSITION_DURATION = 500"

definition renderFrameWith :: "bool \<Rightarrow> real \<Rightarrow> Component \<Rightarrow> Component" where
  "renderFrameWith playing time p =
     (if \<not> isReady p \<or> timings p = [] then p
      else case findActive (timings p) time of
          None \<Rightarrow> (if totalDuration p \<le> time then emit DrawFinished p else p)
        | Some activeSlideIndex \<Rightarrow>
            let slideStart = start (timings p ! activeSlideIndex);
                localTime = time - slideStart
            in if localTime < TRANSITION_DURATION \<and> 0 < activeSlideIndex
               then let prevIndex = activeSlideIndex - 1;
                        prevTiming = timings p ! prevIndex;
                        prevLocalTime = time - start prevTiming;
                        p1 = drawSlideState playing prevIndex prevLocalTime 1 p;
                        alpha = localTime / TRANSITION_DURATION
                    in drawSlideState playing activeSlideIndex localTime alpha p1
               else drawSlideState playing activeSlideIndex localTime 1 p)"

definition renderFrame :: "real \<Rightarrow> Component \<Rightarrow> Component" where
  "renderFrame time p = renderFrameWith (isPlaying p) time p"

text \<open>The effect that redraws after a state change (lines 854-858).\<close>

definition renderEffect :: "Component \<Rightarrow> Component" where
  "renderEffect p = (if isReady p \<and> timings p \<noteq> [] then renderFrame (currentTime p) p else p)"

text \<open>
  The audio synchronisation inside the \<open>setCurrentTime\<close> updater of \<open>animate\<close>
  (lines 817-844), at the new playhead \<open>next\<close>.
\<close>

definition audioSync :: "real \<Rightarrow> Component \<Rightarrow> Component" where
  "audioSync next p =
     (case findActive (timings p) next of
        None \<Rightarrow> p
      | Some activeSlideIdx \<Rightarrow>
          let slideTiming = timings p ! activeSlideIdx;
              isReading = (next < thinkingStart slideTiming);
              isRevealing = (revealStart slideTiming \<le> next)
          in if isReading
             then (if currentAudioTrack p \<noteq> Some (activeSlideIdx, Question)
                   then playVoiceTrack activeSlideIdx Question (next - start slideTiming)
                          (p\<lparr>lastTickTime := - 1\<rparr>)
                   else p)
             else if isRevealing
             then (if currentAudioTrack p \<noteq> Some (activeSlideIdx, Answer)
                   then playVoiceTrack activeSlideIdx Answer (next - revealStart slideTiming) p
                   else p)
             else p)"

text \<open>\<open>animate\<close> (lines 803-851), one host animation frame at \<open>timestamp\<close>.\<close>

definition animate :: "real \<Rightarrow> Component \<Rightarrow> Component" where
  "animate timestamp p =
     (let p1 = (if isPlaying p
                then let delta = timestamp - previousTime p;
                         next = currentTime p + delta
                     in if totalDuration p \<le> next
                        then (stopBgMusicNode (p\<lparr>isPlaying := False\<rparr>))\<lparr>currentTime := totalDuration p\<rparr>
                        else (audioSync next p)\<lparr>currentTime := next\<rparr>
                else p)
      in p1\<lparr>previousTime := timestamp\<rparr>)"

text \<open>
  \<open>togglePlay\<close> (lines 869-884).  A closure of \<open>togglePlay\<close> reads the \<open>isPlaying\<close> and
  \<open>currentTime\<close> of the render that created it; \<open>now\<close> is \<open>performance.now()\<close>.
\<close>

definition togglePlayWith :: "bool \<Rightarrow> real \<Rightarrow> real \<Rightarrow> Component \<Rightarrow> Component" where
  "togglePlayWith playing time now p =
     (if \<not> playing
      then (startBgMusic (time / 1000) (p\<lparr>isPlaying := True, previousTime := now\<rparr>))
             \<lparr>currentAudioTrack := None\<rparr>
      else (stopVoiceNode (stopBgMusicNode (p\<lparr>isPlaying := False\<rparr>)))\<lparr>currentAudioTrack := None\<rparr>)"

definition togglePlay :: "real \<Rightarrow> Component \<Rightarrow> Component" where
  "togglePlay now p = togglePlayWith (isPlaying p) (currentTime p) now p"

text \<open>\<open>reset\<close> (lines 886-896); its \<open>renderFrame(0)\<close> is the closure of the current render.\<close>

definition reset :: "Component \<Rightarrow> Component" where
  "reset p =
     renderFrameWith (isPlaying p) 0
       (stopVoiceNode (stopBgMusicNode
          (p\<lparr>isPlaying := False, currentTime := 0, currentAudioTrack := None, lastTickTime := - 1\<rparr>)))"

text \<open>The seek slider's \<open>onChange\<close> (lines 1022-1028).\<close>

definition seek :: "real \<Rightarrow> Component \<Rightarrow> Component" where
  "seek t p =
     (let p1 = p\<lparr>currentTime := t, currentAudioTrack := None\<rparr>
      in if \<not> isPlaying p then renderFrameWith (isPlaying p) t p1 else p1)"

text \<open>
  \<open>startRecording\<close> (lines 898-937): the recorder is created and started, the player is
  reset, and \<open>togglePlay\<close> is scheduled 200 ms later as the closure of the current render.
  \<open>stopRecording\<close> (lines 939-944).  The recorder's \<open>ondataavailable\<close> and \<open>onstop\<close>
  handlers (lines 919-931).
\<close>

definition startRecording :: "Component \<Rightarrow> Component" where
  "startRecording p =
     (if \<not> isReady p \<or> \<not> dest p then p
      else (reset ((emit RecorderStart p)
              \<lparr>mediaRecorder := Some Recording, chunks := [], isRecording := True\<rparr>))
             \<lparr>timer := Some (isPlaying p, currentTime p)\<rparr>)"

definition timerFires :: "real \<Rightarrow> Component \<Rightarrow> Component" where
  "timerFires now p =
     (case timer p of None \<Rightarrow> p
      | Some (playing, time) \<Rightarrow> togglePlayWith playing time now (p\<lparr>timer := None\<rparr>))"

definition stopRecording :: "real \<Rightarrow> Component \<Rightarrow> Component" where
  "stopRecording now p =
     (case mediaRecorder p of None \<Rightarrow> p
      | Some st \<Rightarrow>
          if st \<noteq> Inactive
          then togglePlay now ((emit RecorderStop p)\<lparr>mediaRecorder := Some Inactive\<rparr>)
          else p)"

definition onDataAvailable :: "nat \<Rightarrow> Component \<Rightarrow> Component" where
  "onDataAvailable sz p = (if 0 < sz then p\<lparr>chunks := chunks p @ [sz]\<rparr> else p)"

definition onStop :: "Component \<Rightarrow> Component" where
  "onStop p = (emit (Download (chunks p)) p)\<lparr>isRecording := False\<rparr>"

text \<open>
  What can happen to a mounted player: a host animation frame, the redraw effect, the
  controls, the recorder's callbacks, and a narration source running out by itself.
  (The mute button only sets the master gain and is left out.)
\<close>

datatype Event =
    AnimationFrame real
  | RenderEffect
  | TogglePlay real
  | Reset
  | Seek real
  | StartRecording
  | TimerFires real
  | StopRecording real
  | DataAvailable nat
  | RecorderOnStop
  | VoiceEnded nat

fun step :: "Component \<Rightarrow> Event \<Rightarrow> Component" where
  "step p (AnimationFrame timestamp) = animate timestamp p"
| "step p RenderEffect = renderEffect p"
| "step p (TogglePlay now) = togglePlay now p"
| "step p Reset = reset p"
| "step p (Seek t) = seek t p"
| "step p StartRecording = startRecording p"
| "step p (TimerFires now) = timerFires now p"
| "step p (StopRecording now) = stopRecording now p"
| "step p (DataAvailable sz) = onDataAvailable sz p"
| "step p RecorderOnStop = onStop p"
| "step p (VoiceEnded n) = p\<lparr>soundingVoice := soundingVoice p - {n}\<rparr>"

definition run :: "Component \<Rightarrow> Event list \<Rightarrow> Component" where
  "run p es = foldl step p es"

section \<open>The preload\<close>

text \<open>
  One run of \<open>prepareAssets\<close> (part_001, lines 79-207) is a task: the props its closure
  captured, its \<open>cancelled\<close> flag, the \<open>await\<close> it is suspended at, and the images whose
  load has not settled.  A \<open>File\<close> is its bytes.  The task runs between suspension points
  without interruption; at a suspension point the effect's cleanup may set \<open>cancelled\<close>
  before the awaited result arrives.  (The cleanup also closes the audio context, which
  no state modelled here records.)
\<close>

datatype Pc =
    AwaitMusicBytes
  | AwaitMusicDecode
  | AwaitSfxBytes
  | AwaitSfxDecode
  | AwaitImages
  | Returned

record Task =
  taskSlides :: "QuizSlide list"
  bgMusicFile :: "ArrayBuffer option"
  countdownSfxFile :: "ArrayBuffer option"
  taskTimerDuration :: real
  cancelled :: bool
  pc :: Pc
  pendingImages :: "nat list"

datatype TaskEvent =
    Cleanup
  | BytesResolved
  | BytesRejected
  | DecodeResolved AudioBuffer
  | DecodeRejected
  | ImageOnload nat
  | ImageOnerror nat
  | ImagesSettled

text \<open>
  Step 4 (lines 137-198): the timing loop and the commit of its result.  The loop writes
  the shared buffer maps as it goes; it returns early only in its first iteration, before
  any write.
\<close>

definition decodeVoiceovers :: "Task \<Rightarrow> Component \<Rightarrow> Task \<times> Component" where
  "decodeVoiceovers t c =
     (case timingsLoop (cancelled t) (taskTimerDuration t) 0 (taskSlides t)
             \<lparr>questionBuffers = questionBuffers c, answerBuffers = answerBuffers c,
              newTimings = [], accumulatedTime = 0\<rparr> of
        None \<Rightarrow> (t\<lparr>pc := Returned\<rparr>, c)
      | Some st \<Rightarrow>
          let c1 = c\<lparr>questionBuffers := questionBuffers st, answerBuffers := answerBuffers st\<rparr>
          in (t\<lparr>pc := Returned\<rparr>,
              if \<not> cancelled t
              then c1\<lparr>timings := newTimings st, totalDuration := accumulatedTime st, isReady := True\<rparr>
              else c1))"

text \<open>
  Step 3 (lines 122-135): an image is requested for every slide whose \<open>backgroundImage\<close>
  is a non-empty string, and the task waits for all of them.
\<close>

definition hasBackground :: "QuizSlide \<Rightarrow> bool" where
  "hasBackground slide = (case backgroundImage slide of None \<Rightarrow> False | Some src \<Rightarrow> src \<noteq> [])"

definition preloadImages :: "Task \<Rightarrow> Component \<Rightarrow> Task \<times> Component" where
  "preloadImages t c =
     (t\<lparr>pc := AwaitImages,
        pendingImages := filter (\<lambda>i. hasBackground (taskSlides t ! i)) [0..<length (taskSlides t)]\<rparr>,
      c)"

text \<open>Step 2 (lines 110-120).\<close>

definition decodeCountdownSfx :: "Task \<Rightarrow> Component \<Rightarrow> Task \<times> Component" where
  "decodeCountdownSfx t c =
     (if countdownSfxFile t \<noteq> None then (t\<lparr>pc := AwaitSfxBytes\<rparr>, c)
      else preloadImages t (c\<lparr>countdownSfxBuffer := None\<rparr>))"

text \<open>The start of \<open>prepareAssets\<close> up to its first suspension (lines 83-103).\<close>

definition prepareAssets ::
  "QuizSlide list \<Rightarrow> ArrayBuffer option \<Rightarrow> ArrayBuffer option \<Rightarrow> real \<Rightarrow> Component \<Rightarrow> Task \<times> Component" where
  "prepareAssets ss music sfx td c =
     (let t = \<lparr>taskSlides = ss, bgMusicFile = music, countdownSfxFile = sfx, taskTimerDuration = td,
               cancelled = False, pc = Returned, pendingImages = []\<rparr>;
          c1 = c\<lparr>isReady := False, audioContext := True, masterGain := True, sfxGain := True,
                 dest := True\<rparr>
      in if bgMusicFile t \<noteq> None then (t\<lparr>pc := AwaitMusicBytes\<rparr>, c1)
         else decodeCountdownSfx t c1)"

text \<open>The continuation of the task when an awaited result, or the cleanup, arrives.\<close>

fun taskStep :: "Task \<times> Component \<Rightarrow> TaskEvent \<Rightarrow> Task \<times> Component" where
  "taskStep (t, c) Cleanup = (t\<lparr>cancelled := True\<rparr>, c)"
| "taskStep (t, c) BytesResolved =
     (if pc t = AwaitMusicBytes then (t\<lparr>pc := AwaitMusicDecode\<rparr>, c)
      else if pc t = AwaitSfxBytes then (t\<lparr>pc := AwaitSfxDecode\<rparr>, c)
      else (t, c))"
| "taskStep (t, c) BytesRejected =
     (if pc t = AwaitMusicBytes then decodeCountdownSfx t c
      else if pc t = AwaitSfxBytes then preloadImages t c
      else (t, c))"
| "taskStep (t, c) (DecodeResolved buffer) =
     (if pc t = AwaitMusicDecode then decodeCountdownSfx t (c\<lparr>bgMusicBuffer := Some buffer\<rparr>)
      else if pc t = AwaitSfxDecode then preloadImages t (c\<lparr>countdownSfxBuffer := Some buffer\<rparr>)
      else (t, c))"
| "taskStep (t, c) DecodeRejected =
     (if pc t = AwaitMusicDecode then decodeCountdownSfx t c
      else if pc t = AwaitSfxDecode then preloadImages t c
      else (t, c))"
| "taskStep (t, c) (ImageOnload k) =
     (if pc t = AwaitImages \<and> k \<in> set (pendingImages t)
      then (t\<lparr>pendingImages := removeAll k (pendingImages t)\<rparr>,
            if \<not> cancelled t
            then (case backgroundImage (taskSlides t ! k) of
                    None \<Rightarrow> c
                  | Some src \<Rightarrow> c\<lparr>images := (images c)(slideId (taskSlides t ! k) \<mapsto> src)\<rparr>)
            else c)
      else (t, c))"
| "taskStep (t, c) (ImageOnerror k) =
     (if pc t = AwaitImages \<and> k \<in> set (pendingImages t)
      then (t\<lparr>pendingImages := removeAll k (pendingImages t)\<rparr>, c)
      else (t, c))"
| "taskStep (t, c) ImagesSettled =
     (if pc t = AwaitImages \<and> pendingImages t = [] then decodeVoiceovers t c else (t, c))"

text \<open>A freshly mounted component (the initial values of lines 42-76) with its props.\<close>

definition initialComponent :: "QuizSlide list \<Rightarrow> real \<Rightarrow> bool \<Rightarrow> Component" where
  "initialComponent ss td sfxOn =
     \<lparr>questionBuffers = Map.empty, answerBuffers = Map.empty,
      slides = ss, timerDuration = td, enableSfx = sfxOn,
      isPlaying = False, currentTime = 0, isRecording = False, isReady = False,
      timings = [], totalDuration = 0, images = Map.empty,
      audioContext = False, masterGain = False, sfxGain = False, dest = False,
      voiceNode = None, bgMusicNode = None, bgMusicBuffer = None, countdownSfxBuffer = None,
      previousTime = 0, mediaRecorder = None, chunks = [], timer = None,
      currentAudioTrack = None, lastTickTime = - 1,
      nextNode = 0, soundingVoice = {}, trace = []\<rparr>"

text \<open>
  A mounted player and its preload together: the mount runs \<open>prepareAssets\<close> on the fresh
  component, and from then on task events and player events interleave.
\<close>

datatype SysEvent = TaskEv TaskEvent | PlayerEv Event

fun sysStep :: "Task \<times> Component \<Rightarrow> SysEvent \<Rightarrow> Task \<times> Component" where
  "sysStep (t, c) (TaskEv e) = taskStep (t, c) e"
| "sysStep (t, c) (PlayerEv e) = (t, step c e)"

definition mount ::
  "QuizSlide list \<Rightarrow> ArrayBuffer option \<Rightarrow> ArrayBuffer option \<Rightarrow> real \<Rightarrow> bool \<Rightarrow> Task \<times> Component" where
  "mount ss music sfx td sfxOn = prepareAssets ss music sfx td (initialComponent ss td sfxOn)"

definition sysRun :: "Task \<times> Component \<Rightarrow> SysEvent list \<Rightarrow> Task \<times> Component" where
  "sysRun s es = foldl sysStep s es"

section \<open>Auxiliary definitions\<close>

text \<open>
  The timeline in closed form: the span of a slide, the timing of a slide that starts at
  \<open>acc\<close>, and the timings of a list of slides laid end to end.  The timing loop is shown
  below to compute exactly this.
\<close>

definition spanOf :: "real \<Rightarrow> QuizSlide \<Rightarrow> real" where
  "spanOf td s = qDurOf s + 500 + td * 1000 + max 2000 (aDurOf s + 1000)"

definition timingAt :: "real \<Rightarrow> real \<Rightarrow> QuizSlide \<Rightarrow> SlideTiming" where
  "timingAt td acc s =
     \<lparr>start = acc,
      questionAudioDuration = qDurOf s,
      thinkingStart = acc + qDurOf s + 500,
      revealStart = acc + qDurOf s + 500 + td * 1000,
      answerAudioDuration = aDurOf s,
      endTime = acc + qDurOf s + 500 + td * 1000 + max 2000 (aDurOf s + 1000)\<rparr>"

fun layout :: "real \<Rightarrow> real \<Rightarrow> QuizSlide list \<Rightarrow> SlideTiming list" where
  "layout td acc [] = []"
| "layout td acc (s # ss) = timingAt td acc s # layout td (acc + spanOf td s) ss"

text \<open>
  Concrete inputs.  \<open>silence ms\<close> is \<open>ms\<close> milliseconds of 16-bit mono PCM at 24 kHz
  (48 bytes per millisecond).  The scenario has three slides with question narrations of
  4000, 3000 and 5000 ms and answer narrations of 1500 ms, none, and 3000 ms.
\<close>

definition silence :: "nat \<Rightarrow> ArrayBuffer" where
  "silence ms = replicate (48 * ms) 0"

definition mkSlide :: "string \<Rightarrow> ArrayBuffer option \<Rightarrow> ArrayBuffer option \<Rightarrow> QuizSlide" where
  "mkSlide name q a = \<lparr>slideId = name, backgroundImage = None, questionAudio = q, answerAudio = a\<rparr>"

definition scenarioSlides :: "QuizSlide list" where
  "scenarioSlides =
     [mkSlide ''s0'' (Some (silence 4000)) (Some (silence 1500)),
      mkSlide ''s1'' (Some (silence 3000)) None,
      mkSlide ''s2'' (Some (silence 5000)) (Some (silence 3000))]"

definition phases :: "SlideTiming \<Rightarrow> real \<times> real \<times> real \<times> real" where
  "phases t = (start t, thinkingStart t, revealStart t, endTime t)"

text \<open>
  Observations on the player.  \<open>newCommands p p'\<close> is what a run from \<open>p\<close> to \<open>p'\<close> added
  to the trace.  \<open>voiceInv\<close> says that no narration source other than the one held in
  \<open>voiceNodeRef\<close> is sounding.  The phase of a playhead inside a slide is the one the
  scheduler derives from the slide's timing, and \<open>activePhase\<close> is the active slide and
  phase at the component's current time.
\<close>

definition newCommands :: "Component \<Rightarrow> Component \<Rightarrow> Command list" where
  "newCommands p p' = drop (length (trace p)) (trace p')"

fun isVoiceStart :: "Command \<Rightarrow> bool" where
  "isVoiceStart (VoiceStart n i ty off) = True"
| "isVoiceStart c = False"

fun isVoiceStop :: "Command \<Rightarrow> bool" where
  "isVoiceStop (VoiceStop n) = True"
| "isVoiceStop c = False"

fun isVoiceCall :: "Command \<Rightarrow> bool" where
  "isVoiceCall (PlayVoiceTrack i ty off) = True"
| "isVoiceCall c = False"

fun isRenderCmd :: "Command \<Rightarrow> bool" where
  "isRenderCmd (PlayTickSound ty) = True"
| "isRenderCmd SfxStart = True"
| "isRenderCmd (DrawSlide i t a) = True"
| "isRenderCmd DrawFinished = True"
| "isRenderCmd c = False"

fun isDraw :: "Command \<Rightarrow> bool" where
  "isDraw (DrawSlide i t a) = True"
| "isDraw c = False"

definition voiceInv :: "Component \<Rightarrow> bool" where
  "voiceInv p = (soundingVoice p \<subseteq> set_option (voiceNode p))"

datatype Phase = Reading | Thinking | Revealing

definition phaseAt :: "SlideTiming \<Rightarrow> real \<Rightarrow> Phase" where
  "phaseAt timing t =
     (if t < thinkingStart timing then Reading
      else if revealStart timing \<le> t then Revealing
      else Thinking)"

definition activePhase :: "Component \<Rightarrow> (nat \<times> Phase) option" where
  "activePhase p =
     (case findActive (timings p) (currentTime p) of
        None \<Rightarrow> None
      | Some i \<Rightarrow> Some (i, phaseAt (timings p ! i) (currentTime p)))"

fun isTickOrRender :: "Event \<Rightarrow> bool" where
  "isTickOrRender (AnimationFrame timestamp) = True"
| "isTickOrRender RenderEffect = True"
| "isTickOrRender e = False"

fun isTick :: "Event \<Rightarrow> bool" where
  "isTick (AnimationFrame timestamp) = True"
| "isTick e = False"

text \<open>The states a run passes through, one after each event.\<close>

fun statesAfter :: "Component \<Rightarrow> Event list \<Rightarrow> Component list" where
  "statesAfter p [] = []"
| "statesAfter p (e # es) = step p e # statesAfter (step p e) es"

text \<open>
  \<open>onlyAdds P p p'\<close>: from \<open>p\<close> to \<open>p'\<close> nothing changed but the last-tick marker and
  the trace, which gained commands that all satisfy \<open>P\<close>.
\<close>

fun isCue :: "Command \<Rightarrow> bool" where
  "isCue (PlayTickSound ty) = True"
| "isCue SfxStart = True"
| "isCue c = False"

definition onlyAdds :: "(Command \<Rightarrow> bool) \<Rightarrow> Component \<Rightarrow> Component \<Rightarrow> bool" where
  "onlyAdds P p p' =
     (\<exists>l cs. p' = p\<lparr>lastTickTime := l, trace := trace p @ cs\<rparr> \<and> (\<forall>c\<in>set cs. P c))"

text \<open>
  The narration track a phase calls for (none while thinking), and whether the
  sounding-track marker already names the track of slide \<open>i\<close> in phase \<open>ph\<close>.
\<close>

fun phaseTrack :: "Phase \<Rightarrow> TrackType option" where
  "phaseTrack Reading = Some Question"
| "phaseTrack Thinking = None"
| "phaseTrack Revealing = Some Answer"

definition settled :: "Component \<Rightarrow> nat \<Rightarrow> Phase \<Rightarrow> bool" where
  "settled p i ph =
     (case phaseTrack ph of None \<Rightarrow> True | Some ty \<Rightarrow> currentAudioTrack p = Some (i, ty))"

fun isVoiceCmd :: "Command \<Rightarrow> bool" where
  "isVoiceCmd (PlayVoiceTrack i ty off) = True"
| "isVoiceCmd (VoiceStop n) = True"
| "isVoiceCmd (VoiceStart n i ty off) = True"
| "isVoiceCmd c = False"

text \<open>
  The slides a frame draws, in drawing order, and the opacity of the one drawn last (on
  top); the number of \<open>'end'\<close> cue calls made so far.
\<close>

definition drawsOf :: "real \<Rightarrow> Component \<Rightarrow> Command list" where
  "drawsOf t p = filter isDraw (newCommands p (renderFrame t p))"

fun alphaOf :: "Command \<Rightarrow> real" where
  "alphaOf (DrawSlide i lt a) = a"
| "alphaOf c = 0"

definition topAlpha :: "real \<Rightarrow> Component \<Rightarrow> real" where
  "topAlpha t p = alphaOf (last (drawsOf t p))"

definition endCueCalls :: "Component \<Rightarrow> nat" where
  "endCueCalls p = length (filter (\<lambda>c. c = PlayTickSound EndCue) (trace p))"

text \<open>The scenario, mounted without music or countdown sound, once its preload is done.\<close>

definition scenarioReady :: Component where
  "scenarioReady = snd (sysRun (mount scenarioSlides None None 5 True) [TaskEv ImagesSettled])"

text \<open>
  Concrete runs of the scenario.  \<open>scenarioPlaying\<close>: play is pressed at time 0.
  \<open>readingTicks\<close>: two frames, 1 s and 2 s into slide 0.  \<open>slideOneReading\<close>: the
  playhead is moved to the start of slide 1 (which has no answer narration), play is
  pressed, and one frame has run; \<open>revealTicks\<close> are two later frames, in the reveal of
  slide 1.  \<open>playThrough\<close>: slide 0 is played from its start through its reveal and 100 ms
  into slide 1.  \<open>exportSession\<close>: an export is started, the playback is paused by the
  play/pause button during the export, and the export is stopped.
\<close>

definition scenarioPlaying :: Component where
  "scenarioPlaying = togglePlay 0 scenarioReady"

definition readingTicks :: "Event list" where
  "readingTicks = [AnimationFrame 1000, RenderEffect, AnimationFrame 2000, RenderEffect]"

definition slideOneReading :: Component where
  "slideOneReading = run scenarioReady [Seek 12000, TogglePlay 0, AnimationFrame 100]"

definition revealTicks :: "Event list" where
  "revealTicks = [AnimationFrame 8600, RenderEffect, AnimationFrame 8700, RenderEffect]"

definition playThrough :: "Event list" where
  "playThrough =
     [TogglePlay 0,
      AnimationFrame 1000, RenderEffect,
      AnimationFrame 5000, RenderEffect,
      AnimationFrame 9600, RenderEffect,
      AnimationFrame 11000, RenderEffect,
      AnimationFrame 12100, RenderEffect]"

definition exportSession :: "Event list" where
  "exportSession =
     [StartRecording, TimerFires 200, AnimationFrame 1200, RenderEffect, TogglePlay 1300,
      StopRecording 2000]"

text \<open>
  A preload with a background-music file: the bytes of the file and the buffer that its
  decoding yields (two seconds at 24 kHz; any file and buffer would do).
\<close>

definition musicFile :: ArrayBuffer where
  "musicFile = [73, 68, 51]"

definition musicBuffer :: AudioBuffer where
  "musicBuffer = \<lparr>frames = 48000, sampleRate = 24000\<rparr>"

text \<open>The part of the component that a preload commits under its cancellation check.\<close>

definition guardedState ::
  "Component \<Rightarrow> (string \<rightharpoonup> string) \<times> (nat \<rightharpoonup> AudioBuffer) \<times> (nat \<rightharpoonup> AudioBuffer)
     \<times> SlideTiming list \<times> real \<times> bool" where
  "guardedState c =
     (images c, questionBuffers c, answerBuffers c, timings c, totalDuration c, isReady c)"

section \<open>Properties of the timeline\<close>

subsection \<open>The timing loop in closed form\<close>

lemma slideStep_newTimings:
  "newTimings (slideStep td i s st) = newTimings st @ [timingAt td (accumulatedTime st) s]"
  by (simp add: slideStep_def timingAt_def qDurOf_def aDurOf_def decodedMs_def Let_def
      split: option.splits)

lemma slideStep_accumulatedTime:
  "accumulatedTime (slideStep td i s st) = accumulatedTime st + spanOf td s"
  by (simp add: slideStep_def spanOf_def qDurOf_def aDurOf_def decodedMs_def Let_def
      split: option.splits)

text \<open>An uncancelled loop always runs to its end, and appends the laid-out timings.\<close>

lemma timingsLoop_layout:
  "\<exists>st'. timingsLoop False td i ss st = Some st'
      \<and> newTimings st' = newTimings st @ layout td (accumulatedTime st) ss
      \<and> accumulatedTime st' = accumulatedTime st + sum_list (map (spanOf td) ss)"
proof (induction ss arbitrary: i st)
  case Nil
  show ?case by simp
next
  case (Cons s ss)
  from Cons.IH [of "Suc i" "slideStep td i s st"]
  show ?case
    by (auto simp: slideStep_newTimings slideStep_accumulatedTime)
qed

lemma buildTimeline_layout:
  "buildTimeline td ss qb ab = Some (layout td 0 ss, sum_list (map (spanOf td) ss))"
proof -
  let ?st = "\<lparr>questionBuffers = qb, answerBuffers = ab, newTimings = [], accumulatedTime = 0\<rparr>"
  from timingsLoop_layout [of td 0 ss ?st]
  show ?thesis by (auto simp: buildTimeline_def)
qed

lemma length_layout: "length (layout td acc ss) = length ss"
  by (induction ss arbitrary: acc) simp_all

lemma layout_nth:
  "i < length ss \<Longrightarrow>
     layout td acc ss ! i = timingAt td (acc + sum_list (map (spanOf td) (take i ss))) (ss ! i)"
proof (induction ss arbitrary: acc i)
  case Nil
  then show ?case by simp
next
  case (Cons s ss)
  show ?case
  proof (cases i)
    case 0
    then show ?thesis by simp
  next
    case (Suc j)
    with Cons.prems have "j < length ss" by simp
    from Cons.IH [OF this, of "acc + spanOf td s"] Suc
    show ?thesis by (simp add: add.assoc)
  qed
qed

subsection \<open>Durations\<close>

text \<open>A narration that decodes has at least one frame, so its duration is positive.\<close>

lemma decodePCM_duration_pos: "decodePCM ab = Some b \<Longrightarrow> 0 < duration b"
  by (auto simp: decodePCM_def duration_def Let_def split: if_splits)

lemma qDurOf_nonneg: "0 \<le> qDurOf s"
  by (auto simp: qDurOf_def decodedMs_def split: option.splits dest!: decodePCM_duration_pos)

lemma aDurOf_nonneg: "0 \<le> aDurOf s"
  by (auto simp: aDurOf_def decodedMs_def split: option.splits dest!: decodePCM_duration_pos)

lemma spanOf_ge: "0 \<le> td \<Longrightarrow> 2500 \<le> spanOf td s"
  using qDurOf_nonneg [of s] by (simp add: spanOf_def)

lemma decodedMs_silence: "0 < ms \<Longrightarrow> decodedMs (Some (silence ms)) = Some (real ms)"
  by (simp add: decodedMs_def decodePCM_def silence_def duration_def Let_def)

lemma decodedMs_None: "decodedMs None = None"
  by (simp add: decodedMs_def)

text \<open>An empty narration buffer does not decode, and is treated like an absent one.\<close>

lemma decodedMs_empty: "decodedMs (Some []) = None"
  by (simp add: decodedMs_def decodePCM_def)

subsection \<open>Phase spans\<close>



subsection \<open>Contiguity and order\<close>



subsection \<open>The three-slide scenario\<close>

lemma scenario_layout:
  "layout 5 0 scenarioSlides =
     [\<lparr>start = 0, questionAudioDuration = 4000, thinkingStart = 4500, revealStart = 9500,
       answerAudioDuration = 1500, endTime = 12000\<rparr>,
      \<lparr>start = 12000, questionAudioDuration = 3000, thinkingStart = 15500, revealStart = 20500,
       answerAudioDuration = 2000, endTime = 23500\<rparr>,
      \<lparr>start = 23500, questionAudioDuration = 5000, thinkingStart = 29000, revealStart = 34000,
       answerAudioDuration = 3000, endTime = 38000\<rparr>]"
  by (simp add: scenarioSlides_def mkSlide_def timingAt_def spanOf_def qDurOf_def aDurOf_def
      decodedMs_silence decodedMs_None)

lemma scenario_total: "sum_list (map (spanOf 5) scenarioSlides) = 38000"
  by (simp add: scenarioSlides_def mkSlide_def spanOf_def qDurOf_def aDurOf_def
      decodedMs_silence decodedMs_None)

text \<open>
  Claim C3, as the code has it.  Building the timeline for three slides with question
  narrations of 4000, 3000 and 5000 ms, answer narrations of 1500 ms, none (slide 1 has no
  answer narration, so the 2000 ms fallback applies and its reveal lasts 3000 ms) and
  3000 ms, and a thinking time of 5000 ms yields: slide 0 start 0, thinkingStart 4500,
  revealStart 9500, end 12000; slide 1 start 12000, thinkingStart 15500, revealStart 20500,
  end 23500; slide 2 start 23500, thinkingStart 29000, revealStart 34000, end 38000; and
  a total duration of 38000, the last end.
\<close>

theorem scenario_timeline:
  "buildTimeline 5 scenarioSlides qb ab =
     Some ([\<lparr>start = 0, questionAudioDuration = 4000, thinkingStart = 4500, revealStart = 9500,
       answerAudioDuration = 1500, endTime = 12000\<rparr>,
      \<lparr>start = 12000, questionAudioDuration = 3000, thinkingStart = 15500, revealStart = 20500,
       answerAudioDuration = 2000, endTime = 23500\<rparr>,
      \<lparr>start = 23500, questionAudioDuration = 5000, thinkingStart = 29000, revealStart = 34000,
       answerAudioDuration = 3000, endTime = 38000\<rparr>], 38000)"
  by (simp only: buildTimeline_layout scenario_layout scenario_total)

text \<open>
  Claim C3 as stated gives slide 1 the end 22500, slide 2 the times 22500, 28000, 33000
  and 37000, and the total 37000.  The built timeline is not that one.
\<close>

theorem scenario_timeline_counterexample:
  "\<not> (map phases (fst (the (buildTimeline 5 scenarioSlides Map.empty Map.empty))) =
         [(0, 4500, 9500, 12000), (12000, 15500, 20500, 22500), (22500, 28000, 33000, 37000)]
      \<and> snd (the (buildTimeline 5 scenarioSlides Map.empty Map.empty)) = 37000)"
  by (simp add: buildTimeline_layout scenario_layout scenario_total phases_def)

section \<open>Rounding of the difficulty counts\<close>




section \<open>Properties of the player\<close>

subsection \<open>Rendering changes only the last-tick marker and the trace\<close>

lemma onlyAdds_refl: "onlyAdds P p p"
  unfolding onlyAdds_def by (rule exI [of _ "lastTickTime p"], rule exI [of _ "[]"]) simp

lemma onlyAdds_trans:
  assumes "onlyAdds P p q" and "onlyAdds P q r"
  shows "onlyAdds P p r"
proof -
  from assms(1) obtain l cs where q: "q = p\<lparr>lastTickTime := l, trace := trace p @ cs\<rparr>"
    and cs: "\<forall>c\<in>set cs. P c" unfolding onlyAdds_def by blast
  from assms(2) obtain l' cs' where r: "r = q\<lparr>lastTickTime := l', trace := trace q @ cs'\<rparr>"
    and cs': "\<forall>c\<in>set cs'. P c" unfolding onlyAdds_def by blast
  have "r = p\<lparr>lastTickTime := l', trace := trace p @ (cs @ cs')\<rparr>"
    by (simp add: q r)
  moreover have "\<forall>c\<in>set (cs @ cs'). P c" using cs cs' by auto
  ultimately show ?thesis unfolding onlyAdds_def by blast
qed

lemma onlyAdds_mono:
  assumes "onlyAdds P p q" and "\<And>c. P c \<Longrightarrow> Q c"
  shows "onlyAdds Q p q"
  using assms unfolding onlyAdds_def by blast

lemma onlyAdds_emit: "P c \<Longrightarrow> onlyAdds P p (emit c p)"
  unfolding onlyAdds_def emit_def
  by (rule exI [of _ "lastTickTime p"], rule exI [of _ "[c]"]) simp

lemma onlyAdds_lastTick:
  assumes "onlyAdds P p q"
  shows "onlyAdds P p (q\<lparr>lastTickTime := l\<rparr>)"
proof -
  from assms obtain l' cs where q: "q = p\<lparr>lastTickTime := l', trace := trace p @ cs\<rparr>"
    and cs: "\<forall>c\<in>set cs. P c" unfolding onlyAdds_def by blast
  have "q\<lparr>lastTickTime := l\<rparr> = p\<lparr>lastTickTime := l, trace := trace p @ cs\<rparr>"
    by (simp add: q)
  with cs show ?thesis unfolding onlyAdds_def by blast
qed

lemma onlyAdds_playTickSound: "onlyAdds isCue p (playTickSound ty p)"
proof -
  have a: "onlyAdds isCue p (emit (PlayTickSound ty) p)" by (rule onlyAdds_emit) simp
  have b: "onlyAdds isCue (emit (PlayTickSound ty) p) (emit SfxStart (emit (PlayTickSound ty) p))"
    by (rule onlyAdds_emit) simp
  from a onlyAdds_trans [OF a b] show ?thesis
    by (auto simp: playTickSound_def Let_def)
qed

text \<open>
  A slide that exists is drawn exactly once, after the cue calls of the draw; the state
  before the draw differs from the initial state by cues only.
\<close>

lemma drawSlideState_shape:
  assumes "k < length (slides p)" and "k < length (timings p)"
  shows "\<exists>p2. onlyAdds isCue p p2 \<and> drawSlideState pl k lt a p = emit (DrawSlide k lt a) p2"
proof -
  define timing where "timing = timings p ! k"
  define timeLeft where
    "timeLeft = max 0 \<lceil>timerDuration p - (lt - (thinkingStart timing - start timing)) / 1000\<rceil>"
  define p1 where
    "p1 = (if pl \<and> (thinkingStart timing - start timing \<le> lt
                    \<and> lt < revealStart timing - start timing)
              \<and> of_int timeLeft \<le> timerDuration p \<and> 0 < timeLeft \<and> timeLeft \<noteq> lastTickTime p
           then (playTickSound TickCue p)\<lparr>lastTickTime := timeLeft\<rparr> else p)"
  define p2 where
    "p2 = (if revealStart timing - start timing \<le> lt \<and> lastTickTime p1 \<noteq> - 99
           then (if pl then playTickSound EndCue p1 else p1)\<lparr>lastTickTime := - 99\<rparr>
           else p1)"
  have r1: "onlyAdds isCue p p1"
    unfolding p1_def
    by (simp add: onlyAdds_refl onlyAdds_lastTick [OF onlyAdds_playTickSound])
  have r2: "onlyAdds isCue p1 p2"
    unfolding p2_def
    by (simp add: onlyAdds_refl onlyAdds_lastTick [OF onlyAdds_playTickSound]
        onlyAdds_lastTick [OF onlyAdds_refl])
  have "drawSlideState pl k lt a p = emit (DrawSlide k lt a) p2"
    unfolding drawSlideState_def Let_def p2_def p1_def timeLeft_def timing_def
    using assms by (simp only: simp_thms if_False)
  with onlyAdds_trans [OF r1 r2] show ?thesis by blast
qed

lemma isCue_isRenderCmd: "isCue c \<Longrightarrow> isRenderCmd c"
  by (cases c) simp_all

lemma onlyAdds_drawSlideState: "onlyAdds isRenderCmd p (drawSlideState pl k lt a p)"
proof (cases "k < length (slides p) \<and> k < length (timings p)")
  case False
  then show ?thesis by (auto simp: drawSlideState_def onlyAdds_refl)
next
  case True
  with drawSlideState_shape [of k p pl lt a]
  obtain p2 where c: "onlyAdds isCue p p2" and d: "drawSlideState pl k lt a p = emit (DrawSlide k lt a) p2"
    by blast
  have e: "onlyAdds isRenderCmd p2 (emit (DrawSlide k lt a) p2)" by (rule onlyAdds_emit) simp
  have "onlyAdds isRenderCmd p p2" using c by (rule onlyAdds_mono) (rule isCue_isRenderCmd)
  from onlyAdds_trans [OF this e] d show ?thesis by simp
qed

lemma onlyAdds_renderFrameWith: "onlyAdds isRenderCmd p (renderFrameWith pl t p)"
proof -
  have two: "onlyAdds isRenderCmd p (drawSlideState pl k' lt' a' (drawSlideState pl k lt a p))"
    for k lt a k' lt' a'
    by (rule onlyAdds_trans [OF onlyAdds_drawSlideState onlyAdds_drawSlideState])
  have fin: "onlyAdds isRenderCmd p (emit DrawFinished p)" by (rule onlyAdds_emit) simp
  show ?thesis
    unfolding renderFrameWith_def Let_def
    by (simp add: onlyAdds_refl onlyAdds_drawSlideState two fin split: option.split)
qed

lemma onlyAdds_renderEffect: "onlyAdds isRenderCmd p (renderEffect p)"
  by (simp add: renderEffect_def renderFrame_def onlyAdds_refl onlyAdds_renderFrameWith)

lemma onlyAdds_trace:
  "onlyAdds P p q \<Longrightarrow> \<exists>cs. trace q = trace p @ cs \<and> (\<forall>c\<in>set cs. P c)"
  unfolding onlyAdds_def by auto

lemma onlyAdds_fields:
  assumes "onlyAdds P p q"
  shows "soundingVoice q = soundingVoice p" and "voiceNode q = voiceNode p"
    and "currentAudioTrack q = currentAudioTrack p" and "timings q = timings p"
    and "currentTime q = currentTime p" and "isPlaying q = isPlaying p"
    and "totalDuration q = totalDuration p" and "previousTime q = previousTime p"
    and "questionBuffers q = questionBuffers p" and "answerBuffers q = answerBuffers p"
    and "audioContext q = audioContext p" and "masterGain q = masterGain p"
    and "slides q = slides p" and "isReady q = isReady p"
  using assms unfolding onlyAdds_def by auto

lemma filter_no_match: "\<forall>c\<in>set cs. \<not> Q c \<Longrightarrow> filter Q cs = []"
  by (induction cs) simp_all

lemma render_not_voice:
  "isRenderCmd c \<Longrightarrow> \<not> isVoiceStart c \<and> \<not> isVoiceStop c \<and> \<not> isVoiceCall c"
  by (cases c) simp_all

subsection \<open>Starting a narration track\<close>

lemma playVoiceTrack_absent:
  assumes "\<not> audioContext p \<or> \<not> masterGain p
           \<or> (if ty = Question then questionBuffers p else answerBuffers p) i = None"
  shows "playVoiceTrack i ty off p = emit (PlayVoiceTrack i ty off) p"
  using assms by (auto simp: playVoiceTrack_def emit_def Let_def)

lemma playVoiceTrack_late:
  assumes "audioContext p" and "masterGain p"
    and "(if ty = Question then questionBuffers p else answerBuffers p) i = Some b"
    and "\<not> off / 1000 < duration b"
  shows "playVoiceTrack i ty off p = stopVoiceNode (emit (PlayVoiceTrack i ty off) p)"
  using assms by (auto simp: playVoiceTrack_def emit_def Let_def)

lemma stopVoiceNode_eq:
  "stopVoiceNode p =
     p\<lparr>soundingVoice := soundingVoice p - set_option (voiceNode p),
       trace := trace p @ map VoiceStop (case voiceNode p of None \<Rightarrow> [] | Some n \<Rightarrow> [n])\<rparr>"
  by (simp add: stopVoiceNode_def emit_def split: option.splits)

lemma playVoiceTrack_start:
  assumes "audioContext p" and "masterGain p"
    and "(if ty = Question then questionBuffers p else answerBuffers p) i = Some b"
    and "off / 1000 < duration b"
  shows "playVoiceTrack i ty off p =
     (let p1 = stopVoiceNode (emit (PlayVoiceTrack i ty off) p)
      in emit (VoiceStart (nextNode p) i ty (off / 1000))
           (p1\<lparr>nextNode := Suc (nextNode p),
               soundingVoice := insert (nextNode p) (soundingVoice p1),
               voiceNode := Some (nextNode p),
               currentAudioTrack := Some (i, ty)\<rparr>))"
  using assms by (cases ty) (simp_all add: playVoiceTrack_def Let_def stopVoiceNode_eq emit_def)

text \<open>The three outcomes of a call, as updates of the state it was called in.\<close>

lemma playVoiceTrack_cases:
  obtains
    (absent) "playVoiceTrack i ty off p = p\<lparr>trace := trace p @ [PlayVoiceTrack i ty off]\<rparr>"
  | (late) "playVoiceTrack i ty off p =
       p\<lparr>soundingVoice := soundingVoice p - set_option (voiceNode p),
         trace := trace p @ PlayVoiceTrack i ty off #
                  map VoiceStop (case voiceNode p of None \<Rightarrow> [] | Some n \<Rightarrow> [n])\<rparr>"
  | (started) "playVoiceTrack i ty off p =
       p\<lparr>nextNode := Suc (nextNode p),
         soundingVoice := insert (nextNode p) (soundingVoice p - set_option (voiceNode p)),
         voiceNode := Some (nextNode p),
         currentAudioTrack := Some (i, ty),
         trace := trace p @ PlayVoiceTrack i ty off #
                  map VoiceStop (case voiceNode p of None \<Rightarrow> [] | Some n \<Rightarrow> [n]) @
                  [VoiceStart (nextNode p) i ty (off / 1000)]\<rparr>"
proof (cases "\<not> audioContext p \<or> \<not> masterGain p
           \<or> (if ty = Question then questionBuffers p else answerBuffers p) i = None")
  case True
  from playVoiceTrack_absent [OF this] absent show ?thesis by (simp add: emit_def)
next
  case False
  then obtain b where b: "(if ty = Question then questionBuffers p else answerBuffers p) i = Some b"
    and ac: "audioContext p" and mg: "masterGain p" by auto
  show ?thesis
  proof (cases "off / 1000 < duration b")
    case True
    from playVoiceTrack_start [OF ac mg b True] started show ?thesis
      by (simp add: Let_def stopVoiceNode_eq emit_def)
  next
    case False
    from playVoiceTrack_late [OF ac mg b False] late show ?thesis
      by (simp add: stopVoiceNode_eq emit_def)
  qed
qed

lemma voiceInv_stopVoiceNode: "voiceInv p \<Longrightarrow> voiceInv (stopVoiceNode p)"
  by (auto simp: voiceInv_def stopVoiceNode_eq)

lemma voiceInv_playVoiceTrack: "voiceInv p \<Longrightarrow> voiceInv (playVoiceTrack i ty off p)"
  by (cases rule: playVoiceTrack_cases [of i ty off p]) (auto simp: voiceInv_def)

subsection \<open>At most one narration source sounds\<close>

lemma voiceInv_updates:
  "voiceInv (p\<lparr>isPlaying := a1\<rparr>) = voiceInv p"
  "voiceInv (p\<lparr>currentTime := a2\<rparr>) = voiceInv p"
  "voiceInv (p\<lparr>previousTime := a3\<rparr>) = voiceInv p"
  "voiceInv (p\<lparr>currentAudioTrack := a4\<rparr>) = voiceInv p"
  "voiceInv (p\<lparr>lastTickTime := a5\<rparr>) = voiceInv p"
  "voiceInv (p\<lparr>mediaRecorder := a6\<rparr>) = voiceInv p"
  "voiceInv (p\<lparr>chunks := a7\<rparr>) = voiceInv p"
  "voiceInv (p\<lparr>isRecording := a8\<rparr>) = voiceInv p"
  "voiceInv (p\<lparr>timer := a9\<rparr>) = voiceInv p"
  "voiceInv (p\<lparr>nextNode := b1\<rparr>) = voiceInv p"
  "voiceInv (p\<lparr>bgMusicNode := b2\<rparr>) = voiceInv p"
  "voiceInv (p\<lparr>trace := b3\<rparr>) = voiceInv p"
  by (simp_all add: voiceInv_def)

lemma voiceInv_emit: "voiceInv (emit c p) = voiceInv p"
  by (simp add: emit_def voiceInv_updates)

lemma voiceInv_stopBgMusicNode: "voiceInv (stopBgMusicNode p) = voiceInv p"
  by (simp add: stopBgMusicNode_def voiceInv_emit split: option.splits)

lemma voiceInv_startBgMusic: "voiceInv (startBgMusic x p) = voiceInv p"
  by (simp add: startBgMusic_def Let_def voiceInv_emit voiceInv_updates voiceInv_stopBgMusicNode
      split: option.splits)

lemma voiceInv_onlyAdds: "onlyAdds P p q \<Longrightarrow> voiceInv q = voiceInv p"
  unfolding onlyAdds_def by (auto simp: voiceInv_updates)

lemma voiceInv_audioSync: "voiceInv p \<Longrightarrow> voiceInv (audioSync next p)"
  by (simp add: audioSync_def Let_def voiceInv_playVoiceTrack voiceInv_updates split: option.splits)

lemma voiceInv_animate: "voiceInv p \<Longrightarrow> voiceInv (animate ts p)"
  by (simp add: animate_def Let_def voiceInv_audioSync voiceInv_updates voiceInv_stopBgMusicNode)

lemma voiceInv_togglePlayWith: "voiceInv p \<Longrightarrow> voiceInv (togglePlayWith pl t now p)"
  by (simp add: togglePlayWith_def voiceInv_updates voiceInv_startBgMusic voiceInv_stopVoiceNode
      voiceInv_stopBgMusicNode)

lemma voiceInv_reset: "voiceInv p \<Longrightarrow> voiceInv (reset p)"
  by (simp add: reset_def voiceInv_onlyAdds [OF onlyAdds_renderFrameWith] voiceInv_stopVoiceNode
      voiceInv_stopBgMusicNode voiceInv_updates)

lemma voiceInv_seek: "voiceInv p \<Longrightarrow> voiceInv (seek t p)"
  by (simp add: seek_def Let_def voiceInv_onlyAdds [OF onlyAdds_renderFrameWith] voiceInv_updates)

lemma voiceInv_startRecording: "voiceInv p \<Longrightarrow> voiceInv (startRecording p)"
  by (simp add: startRecording_def voiceInv_reset voiceInv_updates voiceInv_emit)

lemma voiceInv_timerFires: "voiceInv p \<Longrightarrow> voiceInv (timerFires now p)"
  by (simp add: timerFires_def voiceInv_togglePlayWith voiceInv_updates split: option.splits)

lemma voiceInv_stopRecording: "voiceInv p \<Longrightarrow> voiceInv (stopRecording now p)"
  by (simp add: stopRecording_def togglePlay_def voiceInv_togglePlayWith voiceInv_updates
      voiceInv_emit split: option.splits)

lemma voiceInv_step: "voiceInv p \<Longrightarrow> voiceInv (step p e)"
proof (cases e)
  case (VoiceEnded n)
  assume "voiceInv p"
  then show ?thesis using VoiceEnded by (auto simp: voiceInv_def)
qed (simp_all add: voiceInv_animate voiceInv_onlyAdds [OF onlyAdds_renderEffect]
      togglePlay_def voiceInv_togglePlayWith voiceInv_reset voiceInv_seek voiceInv_startRecording
      voiceInv_timerFires voiceInv_stopRecording onDataAvailable_def onStop_def voiceInv_updates
      voiceInv_emit)

lemma voiceInv_run: "voiceInv p \<Longrightarrow> voiceInv (run p es)"
  unfolding run_def by (induction es arbitrary: p) (simp_all add: voiceInv_step)

text \<open>The preload does not touch the narration source.\<close>

lemma voiceInv_decodeVoiceovers: "voiceInv (snd (decodeVoiceovers t c)) = voiceInv c"
  by (simp add: decodeVoiceovers_def Let_def voiceInv_def split: option.splits)

lemma voiceInv_preloadImages: "voiceInv (snd (preloadImages t c)) = voiceInv c"
  by (simp add: preloadImages_def)

lemma voiceInv_decodeCountdownSfx: "voiceInv (snd (decodeCountdownSfx t c)) = voiceInv c"
  by (simp add: decodeCountdownSfx_def voiceInv_preloadImages) (simp add: voiceInv_def)

lemma voiceInv_taskStep: "voiceInv (snd (taskStep (t, c) e)) = voiceInv c"
proof (cases e)
  case (DecodeResolved b)
  then show ?thesis
    by (simp add: voiceInv_decodeCountdownSfx voiceInv_preloadImages) (simp add: voiceInv_def)
next
  case (ImageOnload k)
  then show ?thesis by (simp add: voiceInv_def split: option.splits)
qed (simp_all add: voiceInv_decodeCountdownSfx voiceInv_preloadImages voiceInv_decodeVoiceovers)

lemma voiceInv_sysStep: "voiceInv (snd s) \<Longrightarrow> voiceInv (snd (sysStep s e))"
  by (cases s; cases e) (simp_all add: voiceInv_taskStep voiceInv_step)

lemma voiceInv_sysRun: "voiceInv (snd s) \<Longrightarrow> voiceInv (snd (sysRun s es))"
  unfolding sysRun_def by (induction es arbitrary: s) (simp_all add: voiceInv_sysStep)

lemma voiceInv_mount: "voiceInv (snd (mount ss music sfx td sfxOn))"
proof -
  have "voiceInv (initialComponent ss td sfxOn)"
    by (simp add: voiceInv_def initialComponent_def)
  then show ?thesis
    by (simp add: mount_def prepareAssets_def Let_def voiceInv_decodeCountdownSfx)
      (simp add: voiceInv_def)
qed

lemma voiceInv_card: "voiceInv p \<Longrightarrow> card (soundingVoice p) \<le> 1"
proof -
  assume "voiceInv p"
  then have sub: "soundingVoice p \<subseteq> set_option (voiceNode p)" by (simp add: voiceInv_def)
  have "card (set_option (voiceNode p)) \<le> 1" by (cases "voiceNode p") simp_all
  moreover have "card (soundingVoice p) \<le> card (set_option (voiceNode p))"
    using sub by (intro card_mono) simp_all
  ultimately show ?thesis by simp
qed

subsection \<open>One tick\<close>

lemma animate_paused: "\<not> isPlaying p \<Longrightarrow> animate ts p = p\<lparr>previousTime := ts\<rparr>"
  by (simp add: animate_def)

lemma animate_finished:
  "isPlaying p \<Longrightarrow> totalDuration p \<le> currentTime p + (ts - previousTime p) \<Longrightarrow>
   animate ts p =
     (stopBgMusicNode (p\<lparr>isPlaying := False\<rparr>))\<lparr>currentTime := totalDuration p, previousTime := ts\<rparr>"
  by (simp add: animate_def Let_def)

lemma animate_running:
  "isPlaying p \<Longrightarrow> \<not> totalDuration p \<le> currentTime p + (ts - previousTime p) \<Longrightarrow>
   animate ts p =
     (audioSync (currentTime p + (ts - previousTime p)) p)
       \<lparr>currentTime := currentTime p + (ts - previousTime p), previousTime := ts\<rparr>"
  by (simp add: animate_def Let_def)

lemma stopBgMusicNode_eq:
  "stopBgMusicNode p =
     p\<lparr>trace := trace p @ map MusicStop (case bgMusicNode p of None \<Rightarrow> [] | Some n \<Rightarrow> [n])\<rparr>"
  by (simp add: stopBgMusicNode_def emit_def split: option.splits)

text \<open>
  What a call of \<open>playVoiceTrack\<close> leaves alone, and what it adds to the trace: at most
  one start, and with a start the marker names the track.
\<close>

lemma playVoiceTrack_frame:
  "timings (playVoiceTrack i ty off p) = timings p"
  "totalDuration (playVoiceTrack i ty off p) = totalDuration p"
  "isPlaying (playVoiceTrack i ty off p) = isPlaying p"
  "currentTime (playVoiceTrack i ty off p) = currentTime p"
  "questionBuffers (playVoiceTrack i ty off p) = questionBuffers p"
  "answerBuffers (playVoiceTrack i ty off p) = answerBuffers p"
  by (cases rule: playVoiceTrack_cases [of i ty off p]; simp)+

lemma playVoiceTrack_starts:
  "\<exists>cs. trace (playVoiceTrack i ty off p) = trace p @ cs
     \<and> length (filter isVoiceStart cs) \<le> 1
     \<and> (filter isVoiceStart cs = [] \<longrightarrow>
          currentAudioTrack (playVoiceTrack i ty off p) = currentAudioTrack p)
     \<and> (filter isVoiceStart cs \<noteq> [] \<longrightarrow>
          currentAudioTrack (playVoiceTrack i ty off p) = Some (i, ty))"
  by (cases rule: playVoiceTrack_cases [of i ty off p]) (auto split: option.splits)

lemma audioSync_frame:
  "timings (audioSync next p) = timings p"
  "totalDuration (audioSync next p) = totalDuration p"
  "isPlaying (audioSync next p) = isPlaying p"
  "questionBuffers (audioSync next p) = questionBuffers p"
  "answerBuffers (audioSync next p) = answerBuffers p"
  by (simp_all add: audioSync_def Let_def playVoiceTrack_frame split: option.splits)

lemma phaseAt_Reading: "phaseAt x t = Reading \<longleftrightarrow> t < thinkingStart x"
  by (simp add: phaseAt_def)

lemma phaseAt_Revealing: "phaseAt x t = Revealing \<longleftrightarrow> \<not> t < thinkingStart x \<and> revealStart x \<le> t"
  by (simp add: phaseAt_def)

lemma phaseAt_Thinking: "phaseAt x t = Thinking \<longleftrightarrow> \<not> t < thinkingStart x \<and> \<not> revealStart x \<le> t"
  by (simp add: phaseAt_def)

lemma audioSync_idle:
  "findActive (timings p) next = None \<Longrightarrow> audioSync next p = p"
  by (simp add: audioSync_def)

lemma audioSync_settled:
  "findActive (timings p) next = Some i \<Longrightarrow> settled p i (phaseAt (timings p ! i) next) \<Longrightarrow>
   audioSync next p = p"
  by (auto simp: audioSync_def Let_def settled_def phaseAt_def split: if_splits)

lemma audioSync_call:
  "findActive (timings p) next = Some i \<Longrightarrow> \<not> settled p i (phaseAt (timings p ! i) next) \<Longrightarrow>
   audioSync next p =
     (case phaseAt (timings p ! i) next of
        Reading \<Rightarrow> playVoiceTrack i Question (next - start (timings p ! i)) (p\<lparr>lastTickTime := - 1\<rparr>)
      | Thinking \<Rightarrow> p
      | Revealing \<Rightarrow> playVoiceTrack i Answer (next - revealStart (timings p ! i)) p)"
  by (auto simp: audioSync_def Let_def settled_def phaseAt_def split: if_splits)

lemma settled_marker: "currentAudioTrack q = currentAudioTrack p \<Longrightarrow> settled q i ph = settled p i ph"
  by (simp add: settled_def split: option.splits)

lemma audioSync_starts:
  "\<exists>cs. trace (audioSync next p) = trace p @ cs
     \<and> length (filter isVoiceStart cs) \<le> 1
     \<and> (filter isVoiceStart cs = [] \<longrightarrow> currentAudioTrack (audioSync next p) = currentAudioTrack p)
     \<and> (filter isVoiceStart cs \<noteq> [] \<longrightarrow>
          (\<exists>i. findActive (timings p) next = Some i
             \<and> settled (audioSync next p) i (phaseAt (timings p ! i) next)))
     \<and> (\<forall>i. findActive (timings p) next = Some i \<and> settled p i (phaseAt (timings p ! i) next)
           \<longrightarrow> cs = [])"
proof (cases "findActive (timings p) next")
  case None
  then show ?thesis by (simp add: audioSync_idle)
next
  case (Some i)
  show ?thesis
  proof (cases "settled p i (phaseAt (timings p ! i) next)")
    case True
    with Some show ?thesis by (simp add: audioSync_settled)
  next
    case False
    note call = audioSync_call [OF Some False]
    show ?thesis
    proof (cases "phaseAt (timings p ! i) next")
      case Reading
      from playVoiceTrack_starts [of i Question "next - start (timings p ! i)" "p\<lparr>lastTickTime := - 1\<rparr>"]
      show ?thesis using Some False call Reading by (auto simp: settled_def)
    next
      case Thinking
      with False show ?thesis by (simp add: settled_def)
    next
      case Revealing
      from playVoiceTrack_starts [of i Answer "next - revealStart (timings p ! i)" p]
      show ?thesis using Some False call Revealing by (auto simp: settled_def)
    qed
  qed
qed

lemma activePhase_cong:
  "timings q = timings p \<Longrightarrow> currentTime q = currentTime p \<Longrightarrow> activePhase q = activePhase p"
  by (simp add: activePhase_def split: option.splits)

text \<open>
  A tick adds at most one start to the trace.  With a start, the marker afterwards names
  the track of the slide and phase the playhead is in; with none, the marker is unchanged;
  and when the marker already named that track, there is no start.
\<close>

lemma animate_starts:
  "\<exists>cs. trace (animate ts p) = trace p @ cs
     \<and> timings (animate ts p) = timings p
     \<and> length (filter isVoiceStart cs) \<le> 1
     \<and> (filter isVoiceStart cs = [] \<longrightarrow> currentAudioTrack (animate ts p) = currentAudioTrack p)
     \<and> (filter isVoiceStart cs \<noteq> [] \<longrightarrow>
          (\<exists>i ph. activePhase (animate ts p) = Some (i, ph) \<and> settled (animate ts p) i ph))
     \<and> (\<forall>i ph. activePhase (animate ts p) = Some (i, ph) \<and> settled p i ph
           \<longrightarrow> filter isVoiceStart cs = [])"
proof (cases "isPlaying p")
  case False
  then show ?thesis by (simp add: animate_paused)
next
  case True
  define nx where "nx = currentTime p + (ts - previousTime p)"
  show ?thesis
  proof (cases "totalDuration p \<le> nx")
    case fin: True
    have "animate ts p =
      (stopBgMusicNode (p\<lparr>isPlaying := False\<rparr>))\<lparr>currentTime := totalDuration p, previousTime := ts\<rparr>"
      using True fin unfolding nx_def by (rule animate_finished)
    then show ?thesis by (auto simp: stopBgMusicNode_eq split: option.splits)
  next
    case run: False
    have eq: "animate ts p = (audioSync nx p)\<lparr>currentTime := nx, previousTime := ts\<rparr>"
      using True run unfolding nx_def by (rule animate_running)
    have ap: "activePhase (animate ts p) =
       (case findActive (timings p) nx of None \<Rightarrow> None
        | Some i \<Rightarrow> Some (i, phaseAt (timings p ! i) nx))"
      by (simp add: eq activePhase_def audioSync_frame split: option.splits)
    from audioSync_starts [of nx p]
    obtain cs where tr: "trace (audioSync nx p) = trace p @ cs"
      and le: "length (filter isVoiceStart cs) \<le> 1"
      and none: "filter isVoiceStart cs = [] \<longrightarrow> currentAudioTrack (audioSync nx p) = currentAudioTrack p"
      and some: "filter isVoiceStart cs \<noteq> [] \<longrightarrow>
          (\<exists>i. findActive (timings p) nx = Some i
             \<and> settled (audioSync nx p) i (phaseAt (timings p ! i) nx))"
      and idle: "\<forall>i. findActive (timings p) nx = Some i \<and> settled p i (phaseAt (timings p ! i) nx)
           \<longrightarrow> cs = []"
      by blast
    have s1: "settled (animate ts p) i ph = settled (audioSync nx p) i ph" for i ph
      by (rule settled_marker) (simp add: eq)
    have c1: "trace (animate ts p) = trace p @ cs" by (simp add: eq tr)
    have c2: "timings (animate ts p) = timings p" by (simp add: eq audioSync_frame)
    have c3: "filter isVoiceStart cs = [] \<longrightarrow> currentAudioTrack (animate ts p) = currentAudioTrack p"
      using none by (simp add: eq)
    have c4: "filter isVoiceStart cs \<noteq> [] \<longrightarrow>
          (\<exists>i ph. activePhase (animate ts p) = Some (i, ph) \<and> settled (animate ts p) i ph)"
      using some by (auto simp: ap s1)
    have c5: "\<forall>i ph. activePhase (animate ts p) = Some (i, ph) \<and> settled p i ph
           \<longrightarrow> filter isVoiceStart cs = []"
      using idle by (auto simp: ap split: option.splits)
    from c1 c2 le c3 c4 c5 show ?thesis by blast
  qed
qed

lemma render_starts:
  assumes "onlyAdds isRenderCmd p q"
  shows "\<exists>cs. trace q = trace p @ cs \<and> timings q = timings p
     \<and> filter isVoiceStart cs = [] \<and> currentAudioTrack q = currentAudioTrack p"
proof -
  from onlyAdds_trace [OF assms] obtain cs where tr: "trace q = trace p @ cs"
    and cs: "\<forall>c\<in>set cs. isRenderCmd c" by blast
  from cs have "filter isVoiceStart cs = []"
    by (intro filter_no_match) (auto dest: render_not_voice)
  with tr onlyAdds_fields [OF assms] show ?thesis by simp
qed

lemma tick_or_render_starts:
  assumes "isTickOrRender e"
  shows "\<exists>cs. trace (step p e) = trace p @ cs
     \<and> timings (step p e) = timings p
     \<and> length (filter isVoiceStart cs) \<le> 1
     \<and> (filter isVoiceStart cs = [] \<longrightarrow> currentAudioTrack (step p e) = currentAudioTrack p)
     \<and> (filter isVoiceStart cs \<noteq> [] \<longrightarrow>
          (\<exists>i ph. activePhase (step p e) = Some (i, ph) \<and> settled (step p e) i ph))
     \<and> (\<forall>i ph. activePhase (step p e) = Some (i, ph) \<and> settled p i ph
           \<longrightarrow> filter isVoiceStart cs = [])"
proof (cases e)
  case (AnimationFrame ts)
  with animate_starts [of ts p] show ?thesis by simp
next
  case RenderEffect
  from render_starts [OF onlyAdds_renderEffect [of p]] RenderEffect
  show ?thesis by auto
qed (use assms in simp_all)

lemma repeated_ticks_starts:
  assumes "\<forall>e\<in>set es. isTickOrRender e"
    and "\<forall>q\<in>set (statesAfter p es). activePhase q = Some (i, ph)"
  shows "\<exists>cs. trace (run p es) = trace p @ cs
     \<and> length (filter isVoiceStart cs) \<le> 1
     \<and> (settled p i ph \<longrightarrow> filter isVoiceStart cs = [])"
  using assms
proof (induction es arbitrary: p)
  case Nil
  show ?case by (simp add: run_def)
next
  case (Cons e es)
  let ?q = "step p e"
  from Cons.prems have te: "isTickOrRender e" and rest: "\<forall>e\<in>set es. isTickOrRender e"
    and aq: "activePhase ?q = Some (i, ph)"
    and after: "\<forall>r\<in>set (statesAfter ?q es). activePhase r = Some (i, ph)"
    by simp_all
  from tick_or_render_starts [OF te, of p]
  obtain cs1 where t1: "trace ?q = trace p @ cs1"
    and l1: "length (filter isVoiceStart cs1) \<le> 1"
    and n1: "filter isVoiceStart cs1 = [] \<longrightarrow> currentAudioTrack ?q = currentAudioTrack p"
    and s1: "filter isVoiceStart cs1 \<noteq> [] \<longrightarrow>
          (\<exists>i ph. activePhase ?q = Some (i, ph) \<and> settled ?q i ph)"
    and i1: "\<forall>i ph. activePhase ?q = Some (i, ph) \<and> settled p i ph
           \<longrightarrow> filter isVoiceStart cs1 = []"
    by blast
  from Cons.IH [OF rest after]
  obtain cs2 where t2: "trace (run ?q es) = trace ?q @ cs2"
    and l2: "length (filter isVoiceStart cs2) \<le> 1"
    and i2: "settled ?q i ph \<longrightarrow> filter isVoiceStart cs2 = []"
    by blast
  have tr: "trace (run p (e # es)) = trace p @ (cs1 @ cs2)"
    using t1 t2 by (simp add: run_def)
  have le: "length (filter isVoiceStart (cs1 @ cs2)) \<le> 1"
  proof (cases "filter isVoiceStart cs1 = []")
    case True
    with l2 show ?thesis by simp
  next
    case False
    with s1 aq have "settled ?q i ph" by auto
    with i2 l1 show ?thesis by simp
  qed
  have idle: "settled p i ph \<longrightarrow> filter isVoiceStart (cs1 @ cs2) = []"
  proof
    assume sp: "settled p i ph"
    with i1 aq have e1: "filter isVoiceStart cs1 = []" by blast
    with n1 have "currentAudioTrack ?q = currentAudioTrack p" by simp
    from settled_marker [OF this] sp have "settled ?q i ph" by simp
    with i2 e1 show "filter isVoiceStart (cs1 @ cs2) = []" by simp
  qed
  from tr le idle show ?case by blast
qed

lemma newCommands_append: "trace q = trace p @ cs \<Longrightarrow> newCommands p q = cs"
  by (simp add: newCommands_def)

text \<open>
  When a call does start a source: the source held before has been stopped first, the new
  source is the only one sounding, and the marker and the node ref name it.
\<close>

lemma playVoiceTrack_start_effect:
  assumes "voiceInv p"
    and "VoiceStart n j ty' off' \<in> set (newCommands p (playVoiceTrack i ty off p))"
  shows "soundingVoice (playVoiceTrack i ty off p) = {n}
       \<and> voiceNode (playVoiceTrack i ty off p) = Some n
       \<and> currentAudioTrack (playVoiceTrack i ty off p) = Some (i, ty)
       \<and> newCommands p (playVoiceTrack i ty off p) =
           PlayVoiceTrack i ty off #
           map VoiceStop (case voiceNode p of None \<Rightarrow> [] | Some old \<Rightarrow> [old]) @
           [VoiceStart n i ty (off / 1000)]"
proof (cases rule: playVoiceTrack_cases [of i ty off p])
  case absent
  with assms(2) show ?thesis by (simp add: newCommands_def)
next
  case late
  with assms(2) show ?thesis by (auto simp: newCommands_def split: option.splits)
next
  case started
  from assms(1) have "soundingVoice p - set_option (voiceNode p) = {}"
    by (auto simp: voiceInv_def)
  with started assms(2) show ?thesis by (auto simp: newCommands_def split: option.splits)
qed

subsection \<open>A slide without an answer buffer\<close>

lemma absent_answer_tick:
  assumes ab: "answerBuffers p i = None"
    and mk: "currentAudioTrack p = Some (i, Question)"
    and pl: "isPlaying (animate ts p)"
    and ap: "activePhase (animate ts p) = Some (i, Revealing)"
  shows "animate ts p =
     p\<lparr>currentTime := currentTime p + (ts - previousTime p), previousTime := ts,
       trace := trace p @ [PlayVoiceTrack i Answer
                  (currentTime p + (ts - previousTime p) - revealStart (timings p ! i))]\<rparr>"
proof -
  define nx where "nx = currentTime p + (ts - previousTime p)"
  have playing: "isPlaying p"
  proof (rule ccontr)
    assume "\<not> isPlaying p"
    from animate_paused [OF this, of ts] pl this show False by simp
  qed
  have running: "\<not> totalDuration p \<le> nx"
  proof
    assume "totalDuration p \<le> nx"
    then have "totalDuration p \<le> currentTime p + (ts - previousTime p)" by (simp add: nx_def)
    from animate_finished [OF playing this] pl show False by (simp add: stopBgMusicNode_eq)
  qed
  have eq: "animate ts p = (audioSync nx p)\<lparr>currentTime := nx, previousTime := ts\<rparr>"
    using playing running unfolding nx_def by (rule animate_running)
  from ap have "(case findActive (timings p) nx of None \<Rightarrow> None
        | Some k \<Rightarrow> Some (k, phaseAt (timings p ! k) nx)) = Some (i, Revealing)"
    by (simp add: eq activePhase_def audioSync_frame split: option.splits)
  then have fa: "findActive (timings p) nx = Some i" and ph: "phaseAt (timings p ! i) nx = Revealing"
    by (auto split: option.splits)
  have ns: "\<not> settled p i (phaseAt (timings p ! i) nx)"
    by (simp add: ph settled_def mk)
  have "audioSync nx p = playVoiceTrack i Answer (nx - revealStart (timings p ! i)) p"
    using audioSync_call [OF fa ns] by (simp add: ph)
  also have "\<dots> = emit (PlayVoiceTrack i Answer (nx - revealStart (timings p ! i))) p"
    by (rule playVoiceTrack_absent) (simp add: ab)
  finally show ?thesis by (simp add: eq emit_def nx_def)
qed

lemma absent_answer_step:
  assumes te: "isTickOrRender e"
    and ab: "answerBuffers p i = None"
    and mk: "currentAudioTrack p = Some (i, Question)"
    and pl: "isPlaying (step p e)"
    and ap: "activePhase (step p e) = Some (i, Revealing)"
  shows "voiceNode (step p e) = voiceNode p \<and> soundingVoice (step p e) = soundingVoice p
       \<and> currentAudioTrack (step p e) = currentAudioTrack p
       \<and> answerBuffers (step p e) = answerBuffers p
       \<and> (\<exists>cs. trace (step p e) = trace p @ cs
             \<and> filter isVoiceCmd cs =
                 (if isTick e
                  then [PlayVoiceTrack i Answer
                          (currentTime (step p e) - revealStart (timings (step p e) ! i))]
                  else []))"
proof (cases e)
  case (AnimationFrame ts)
  from pl ap have pl': "isPlaying (animate ts p)"
    and ap': "activePhase (animate ts p) = Some (i, Revealing)"
    by (simp_all add: AnimationFrame)
  note eq = absent_answer_tick [OF ab mk pl' ap']
  show ?thesis
    unfolding AnimationFrame step.simps isTick.simps
    by (subst (1 2 3 4 5 6 7) eq) simp
next
  case RenderEffect
  note oa = onlyAdds_renderEffect [of p]
  from onlyAdds_trace [OF oa] obtain cs where tr: "trace (renderEffect p) = trace p @ cs"
    and cs: "\<forall>c\<in>set cs. isRenderCmd c" by blast
  have "filter isVoiceCmd cs = []"
  proof (rule filter_no_match, rule ballI)
    fix c assume "c \<in> set cs"
    with cs have "isRenderCmd c" by simp
    then show "\<not> isVoiceCmd c" by (cases c) simp_all
  qed
  with tr onlyAdds_fields [OF oa] show ?thesis by (simp add: RenderEffect)
qed (use te in simp_all)

lemma absent_answer_run:
  assumes "\<forall>e\<in>set es. isTickOrRender e"
    and "answerBuffers p i = None"
    and "currentAudioTrack p = Some (i, Question)"
    and "\<forall>q\<in>set (statesAfter p es). isPlaying q \<and> activePhase q = Some (i, Revealing)"
  shows "voiceNode (run p es) = voiceNode p \<and> soundingVoice (run p es) = soundingVoice p
       \<and> currentAudioTrack (run p es) = Some (i, Question)
       \<and> (\<exists>cs. trace (run p es) = trace p @ cs
             \<and> filter isVoiceCmd cs =
                 map (\<lambda>q. PlayVoiceTrack i Answer (currentTime q - revealStart (timings q ! i)))
                   (map snd (filter (isTick \<circ> fst) (zip es (statesAfter p es)))))"
  using assms
proof (induction es arbitrary: p)
  case Nil
  then show ?case by (simp add: run_def)
next
  case (Cons e es)
  let ?q = "step p e"
  from Cons.prems have te: "isTickOrRender e" and rest: "\<forall>e\<in>set es. isTickOrRender e"
    and pl: "isPlaying ?q" and ap: "activePhase ?q = Some (i, Revealing)"
    and after: "\<forall>r\<in>set (statesAfter ?q es). isPlaying r \<and> activePhase r = Some (i, Revealing)"
    by simp_all
  from absent_answer_step [OF te Cons.prems(2) Cons.prems(3) pl ap]
  obtain cs1 where v: "voiceNode ?q = voiceNode p" and s: "soundingVoice ?q = soundingVoice p"
    and m: "currentAudioTrack ?q = currentAudioTrack p" and a: "answerBuffers ?q = answerBuffers p"
    and t1: "trace ?q = trace p @ cs1"
    and f1: "filter isVoiceCmd cs1 =
         (if isTick e then [PlayVoiceTrack i Answer (currentTime ?q - revealStart (timings ?q ! i))]
          else [])"
    by blast
  from a Cons.prems(2) have a': "answerBuffers ?q i = None" by simp
  from m Cons.prems(3) have m': "currentAudioTrack ?q = Some (i, Question)" by simp
  from Cons.IH [OF rest a' m' after]
  obtain cs2 where v2: "voiceNode (run ?q es) = voiceNode ?q"
    and s2: "soundingVoice (run ?q es) = soundingVoice ?q"
    and m2: "currentAudioTrack (run ?q es) = Some (i, Question)"
    and t2: "trace (run ?q es) = trace ?q @ cs2"
    and f2: "filter isVoiceCmd cs2 =
         map (\<lambda>q. PlayVoiceTrack i Answer (currentTime q - revealStart (timings q ! i)))
           (map snd (filter (isTick \<circ> fst) (zip es (statesAfter ?q es))))"
    by blast
  have r: "run p (e # es) = run ?q es" by (simp add: run_def)
  have tr: "trace (run p (e # es)) = trace p @ (cs1 @ cs2)" using t1 t2 by (simp add: r)
  have fl: "filter isVoiceCmd (cs1 @ cs2) =
         map (\<lambda>q. PlayVoiceTrack i Answer (currentTime q - revealStart (timings q ! i)))
           (map snd (filter (isTick \<circ> fst) (zip (e # es) (statesAfter p (e # es)))))"
    using f1 f2 by simp
  have c1: "voiceNode (run p (e # es)) = voiceNode p" using v v2 by (simp add: r)
  have c2: "soundingVoice (run p (e # es)) = soundingVoice p" using s s2 by (simp add: r)
  have c3: "currentAudioTrack (run p (e # es)) = Some (i, Question)" using m2 by (simp add: r)
  from tr fl have "\<exists>cs. trace (run p (e # es)) = trace p @ cs
             \<and> filter isVoiceCmd cs =
                 map (\<lambda>q. PlayVoiceTrack i Answer (currentTime q - revealStart (timings q ! i)))
                   (map snd (filter (isTick \<circ> fst) (zip (e # es) (statesAfter p (e # es)))))"
    by blast
  with c1 c2 c3 show ?case by blast
qed

section \<open>Concrete runs\<close>

lemmas player_defs = emit_def stopVoiceNode_def stopBgMusicNode_def startBgMusic_def playVoiceTrack_def
  playTickSound_def findActive_def drawSlideState_def renderFrameWith_def renderFrame_def renderEffect_def
  audioSync_def animate_def togglePlayWith_def togglePlay_def reset_def seek_def startRecording_def
  timerFires_def stopRecording_def onDataAvailable_def onStop_def TRANSITION_DURATION_def duration_def

lemmas preload_defs = decodeVoiceovers_def hasBackground_def preloadImages_def decodeCountdownSfx_def
  prepareAssets_def initialComponent_def mount_def

lemma decodePCM_silence: "0 < ms \<Longrightarrow> decodePCM (silence ms) = Some \<lparr>frames = 24 * ms, sampleRate = 24000\<rparr>"
  by (simp add: decodePCM_def silence_def Let_def)

lemma scenarioReady_eq:
  "scenarioReady =
    \<lparr>questionBuffers =
         [0 \<mapsto> \<lparr>frames = 96000, sampleRate = 24000\<rparr>,
          Suc 0 \<mapsto> \<lparr>frames = 72000, sampleRate = 24000\<rparr>,
          Suc (Suc 0) \<mapsto> \<lparr>frames = 120000, sampleRate = 24000\<rparr>],
      answerBuffers =
           [0 \<mapsto> \<lparr>frames = 36000, sampleRate = 24000\<rparr>,
            Suc (Suc 0) \<mapsto> \<lparr>frames = 72000, sampleRate = 24000\<rparr>],
      slides = scenarioSlides,
      timerDuration = 5, enableSfx = True, isPlaying = False,
      currentTime = 0, isRecording = False, isReady = True,
      timings =
           [\<lparr>start = 0, questionAudioDuration = 4000, thinkingStart = 4500,
               revealStart = 9500, answerAudioDuration = 1500,
               endTime = 12000\<rparr>,
            \<lparr>start = 12000, questionAudioDuration = 3000,
               thinkingStart = 15500, revealStart = 20500,
               answerAudioDuration = 2000, endTime = 23500\<rparr>,
            \<lparr>start = 23500, questionAudioDuration = 5000,
               thinkingStart = 29000, revealStart = 34000,
               answerAudioDuration = 3000, endTime = 38000\<rparr>],
      totalDuration = 38000, images = Map.empty, audioContext = True,
      masterGain = True, sfxGain = True, dest = True, voiceNode = None,
      bgMusicNode = None, bgMusicBuffer = None, countdownSfxBuffer = None,
      previousTime = 0, mediaRecorder = None, chunks = [], timer = None,
      currentAudioTrack = None, lastTickTime = - 1, nextNode = 0,
      soundingVoice = {}, trace = []\<rparr>"
  by (simp add: scenarioReady_def sysRun_def preload_defs scenarioSlides_def mkSlide_def slideStep_def
      decodePCM_silence Let_def duration_def)

lemma scenario_built:
  "buildTimeline 5 (slides scenarioReady) Map.empty Map.empty = Some (timings scenarioReady, 38000)"
  by (simp add: scenarioReady_eq buildTimeline_layout scenario_layout scenario_total)

lemma scenarioPlaying_eq:
  "scenarioPlaying = scenarioReady\<lparr>isPlaying := True\<rparr>"
  by (simp add: scenarioPlaying_def togglePlay_def togglePlayWith_def startBgMusic_def scenarioReady_eq)

lemma slideOneReading_eq:
  "slideOneReading =
     scenarioReady\<lparr>isPlaying := True, currentTime := 12100, previousTime := 100,
       voiceNode := Some 0, currentAudioTrack := Some (1, Question), lastTickTime := - 1,
       nextNode := 1, soundingVoice := {0},
       trace := [DrawSlide 0 12000 1, DrawSlide 1 0 0, PlayVoiceTrack 1 Question 100,
                 VoiceStart 0 1 Question (1 / 10)]\<rparr>"
  by (simp add: slideOneReading_def scenarioReady_eq run_def player_defs scenarioSlides_def Let_def)

section \<open>Rendering a frame\<close>

subsection \<open>Finding the active slide of a built timeline\<close>

lemma layout_start_ge:
  assumes "0 \<le> td" and "j < length ss"
  shows "acc \<le> start (layout td acc ss ! j)"
proof -
  have "0 \<le> sum_list (map (spanOf td) (take j ss))"
  proof (rule sum_list_nonneg)
    fix x assume "x \<in> set (map (spanOf td) (take j ss))"
    then obtain s where "x = spanOf td s" by auto
    with spanOf_ge [OF assms(1), of s] show "0 \<le> x" by simp
  qed
  with layout_nth [OF assms(2), of td acc] show ?thesis by (simp add: timingAt_def)
qed

lemma findActiveFrom_layout:
  assumes "0 \<le> td"
  shows "i < length ss \<Longrightarrow> start (layout td acc ss ! i) \<le> t \<Longrightarrow> t < endTime (layout td acc ss ! i)
     \<Longrightarrow> findActiveFrom k (layout td acc ss) t = Some (k + i)"
proof (induction ss arbitrary: acc i k)
  case Nil
  then show ?case by simp
next
  case (Cons s ss)
  show ?case
  proof (cases i)
    case 0
    with Cons.prems show ?thesis by simp
  next
    case (Suc j)
    with Cons.prems have j: "j < length ss"
      and lo: "start (layout td (acc + spanOf td s) ss ! j) \<le> t"
      and hi: "t < endTime (layout td (acc + spanOf td s) ss ! j)" by simp_all
    from layout_start_ge [OF assms j, of "acc + spanOf td s"] lo
    have "\<not> t < endTime (timingAt td acc s)" by (simp add: timingAt_def spanOf_def)
    with Cons.IH [OF j lo hi, of "Suc k"] Suc show ?thesis by simp
  qed
qed

lemma findActive_layout:
  "0 \<le> td \<Longrightarrow> i < length ss \<Longrightarrow> start (layout td 0 ss ! i) \<le> t \<Longrightarrow> t < endTime (layout td 0 ss ! i)
     \<Longrightarrow> findActive (layout td 0 ss) t = Some i"
  using findActiveFrom_layout [of td i ss 0 t 0] by (simp add: findActive_def)

lemma layout_span:
  "0 \<le> td \<Longrightarrow> i < length ss \<Longrightarrow> start (layout td acc ss ! i) + 2500 \<le> endTime (layout td acc ss ! i)"
  using layout_nth [of i ss td acc] qDurOf_nonneg [of "ss ! i"] by (simp add: timingAt_def)

subsection \<open>What a frame draws\<close>

lemma drawSlideState_draws:
  assumes "k < length (slides p)" and "k < length (timings p)"
  shows "\<exists>cs. trace (drawSlideState pl k lt a p) = trace p @ cs @ [DrawSlide k lt a]
       \<and> filter isDraw cs = []
       \<and> slides (drawSlideState pl k lt a p) = slides p
       \<and> timings (drawSlideState pl k lt a p) = timings p"
proof -
  from drawSlideState_shape [OF assms, of pl lt a]
  obtain p2 where c: "onlyAdds isCue p p2" and d: "drawSlideState pl k lt a p = emit (DrawSlide k lt a) p2"
    by blast
  from onlyAdds_trace [OF c] obtain cs where tr: "trace p2 = trace p @ cs"
    and cs: "\<forall>c\<in>set cs. isCue c" by blast
  have "filter isDraw cs = []"
  proof (rule filter_no_match, rule ballI)
    fix c assume "c \<in> set cs"
    with cs have "isCue c" by simp
    then show "\<not> isDraw c" by (cases c) simp_all
  qed
  with tr onlyAdds_fields [OF c] d show ?thesis by (simp add: emit_def)
qed

lemma renderFrameWith_draws:
  assumes rdy: "isReady p" and len: "length (slides p) = length (timings p)"
    and act: "findActive (timings p) t = Some i" and i: "i < length (timings p)"
  shows "filter isDraw (newCommands p (renderFrameWith pl t p)) =
           (if 0 < i \<and> t - start (timings p ! i) < 500
            then [DrawSlide (i - 1) (t - start (timings p ! (i - 1))) 1,
                  DrawSlide i (t - start (timings p ! i)) ((t - start (timings p ! i)) / 500)]
            else [DrawSlide i (t - start (timings p ! i)) 1])"
proof (cases "0 < i \<and> t - start (timings p ! i) < 500")
  case True
  let ?lt = "t - start (timings p ! i)"
  let ?plt = "t - start (timings p ! (i - 1))"
  let ?p1 = "drawSlideState pl (i - 1) ?plt 1 p"
  from i len have k1: "i - 1 < length (slides p)" "i - 1 < length (timings p)" by simp_all
  from drawSlideState_draws [OF k1, of pl ?plt 1]
  obtain cs1 where t1: "trace ?p1 = trace p @ cs1 @ [DrawSlide (i - 1) ?plt 1]"
    and f1: "filter isDraw cs1 = []" and s1: "slides ?p1 = slides p" and g1: "timings ?p1 = timings p"
    by blast
  from i len s1 g1 have k2: "i < length (slides ?p1)" "i < length (timings ?p1)" by simp_all
  from drawSlideState_draws [OF k2, of pl ?lt "?lt / 500"]
  obtain cs2 where t2: "trace (drawSlideState pl i ?lt (?lt / 500) ?p1)
        = trace ?p1 @ cs2 @ [DrawSlide i ?lt (?lt / 500)]"
    and f2: "filter isDraw cs2 = []" by blast
  have "renderFrameWith pl t p = drawSlideState pl i ?lt (?lt / 500) ?p1"
    using rdy i act True by (auto simp: renderFrameWith_def Let_def TRANSITION_DURATION_def)
  with t1 t2 f1 f2 True show ?thesis by (simp add: newCommands_def)
next
  case False
  let ?lt = "t - start (timings p ! i)"
  from i len have k: "i < length (slides p)" "i < length (timings p)" by simp_all
  from drawSlideState_draws [OF k, of pl ?lt 1]
  obtain cs where t1: "trace (drawSlideState pl i ?lt 1 p) = trace p @ cs @ [DrawSlide i ?lt 1]"
    and f1: "filter isDraw cs = []" by blast
  have "renderFrameWith pl t p = drawSlideState pl i ?lt 1 p"
    using rdy i act False by (auto simp: renderFrameWith_def Let_def TRANSITION_DURATION_def)
  with t1 f1 False show ?thesis by (simp add: newCommands_def)
qed

lemma frame_draws:
  assumes "isReady p" and "buildTimeline td (slides p) qb ab = Some (timings p, tot)"
    and "0 \<le> td" and "i < length (timings p)"
    and "start (timings p ! i) \<le> t" and "t < endTime (timings p ! i)"
  shows "drawsOf t p =
           (if 0 < i \<and> t - start (timings p ! i) < 500
            then [DrawSlide (i - 1) (t - start (timings p ! (i - 1))) 1,
                  DrawSlide i (t - start (timings p ! i)) ((t - start (timings p ! i)) / 500)]
            else [DrawSlide i (t - start (timings p ! i)) 1])"
    and "topAlpha t p = (if 0 < i then min 1 ((t - start (timings p ! i)) / 500) else 1)"
    and "start (timings p ! i) + 500 < endTime (timings p ! i)"
proof -
  from assms(2) have tl: "timings p = layout td 0 (slides p)"
    by (simp add: buildTimeline_layout)
  then have len: "length (slides p) = length (timings p)" by (simp add: length_layout)
  with assms(4) have i: "i < length (slides p)" by simp
  have act: "findActive (timings p) t = Some i"
    using findActive_layout [OF assms(3) i, of t] assms(5,6) by (simp add: tl [symmetric])
  show d: "drawsOf t p =
           (if 0 < i \<and> t - start (timings p ! i) < 500
            then [DrawSlide (i - 1) (t - start (timings p ! (i - 1))) 1,
                  DrawSlide i (t - start (timings p ! i)) ((t - start (timings p ! i)) / 500)]
            else [DrawSlide i (t - start (timings p ! i)) 1])"
    unfolding drawsOf_def renderFrame_def
    by (rule renderFrameWith_draws [OF assms(1) len act assms(4)])
  show "topAlpha t p = (if 0 < i then min 1 ((t - start (timings p ! i)) / 500) else 1)"
    using assms(5) by (simp add: topAlpha_def d min_def)
  show "start (timings p ! i) + 500 < endTime (timings p ! i)"
    using layout_span [OF assms(3) i, of 0] by (simp add: tl [symmetric])
qed

text \<open>
  Claim C8.  In a ready player whose timings are the built timeline of its slides (thinking
  time non-negative), let the playhead \<open>t\<close> lie in slide \<open>i\<close>.  Within the first 500 ms of
  a slide other than the first, the frame draws the previous slide at opacity 1 and then
  the active slide on top at opacity \<open>(t - start) / 500\<close>; at every later time of the slide,
  and throughout the first slide, it draws the active slide alone at opacity 1.  The
  opacity of the active slide never decreases as the playhead advances within the slide,
  is 0 at the start of a slide other than the first, and is 1 from exactly 500 ms on
  (every slide lasts longer than that).
\<close>

theorem crossfade_opacity:
  assumes "isReady p" and "buildTimeline td (slides p) qb ab = Some (timings p, tot)"
    and "0 \<le> td" and "i < length (timings p)"
    and "start (timings p ! i) \<le> t" and "t < endTime (timings p ! i)"
  shows "drawsOf t p =
           (if 0 < i \<and> t - start (timings p ! i) < 500
            then [DrawSlide (i - 1) (t - start (timings p ! (i - 1))) 1,
                  DrawSlide i (t - start (timings p ! i)) ((t - start (timings p ! i)) / 500)]
            else [DrawSlide i (t - start (timings p ! i)) 1])
       \<and> (\<forall>t'. t \<le> t' \<and> t' < endTime (timings p ! i) \<longrightarrow> topAlpha t p \<le> topAlpha t' p)
       \<and> (0 < i \<longrightarrow> topAlpha (start (timings p ! i)) p = 0)
       \<and> start (timings p ! i) + 500 < endTime (timings p ! i)
       \<and> topAlpha (start (timings p ! i) + 500) p = 1"
proof -
  note fd = frame_draws [OF assms(1-4)]
  have span: "start (timings p ! i) + 500 < endTime (timings p ! i)"
    by (rule fd(3) [OF assms(5,6)])
  have mono: "topAlpha t p \<le> topAlpha t' p" if "t \<le> t'" and "t' < endTime (timings p ! i)" for t'
  proof -
    from that assms(5) have "start (timings p ! i) \<le> t'" by simp
    from fd(2) [OF this that(2)] fd(2) [OF assms(5,6)] that(1)
    show ?thesis by (simp add: min_def divide_right_mono)
  qed
  have zero: "topAlpha (start (timings p ! i)) p = 0" if "0 < i"
  proof -
    from span have "start (timings p ! i) < endTime (timings p ! i)" by simp
    from fd(2) [OF _ this] that show ?thesis by simp
  qed
  have one: "topAlpha (start (timings p ! i) + 500) p = 1"
    using fd(2) [OF _ span] by simp
  from fd(1) [OF assms(5,6)] mono zero span one show ?thesis by blast
qed

text \<open>
  The theorem at the scenario, slide 1 (which starts at 12000): 100 ms into the slide the
  frame draws slide 0 at opacity 1 and slide 1 at opacity 1/5; the opacity is 0 at 12000
  and 1 at 12500.
\<close>

theorem crossfade_opacity_witness:
  "isReady scenarioReady
   \<and> buildTimeline 5 (slides scenarioReady) Map.empty Map.empty = Some (timings scenarioReady, 38000)
   \<and> (0::real) \<le> 5 \<and> 1 < length (timings scenarioReady)
   \<and> start (timings scenarioReady ! 1) \<le> 12100 \<and> 12100 < endTime (timings scenarioReady ! 1)
   \<and> drawsOf 12100 scenarioReady = [DrawSlide 0 12100 1, DrawSlide 1 100 (1 / 5)]
   \<and> topAlpha 12100 scenarioReady \<le> topAlpha 12400 scenarioReady
   \<and> topAlpha 12000 scenarioReady = 0
   \<and> topAlpha 12500 scenarioReady = 1"
proof -
  have h1: "isReady scenarioReady" by (simp add: scenarioReady_eq)
  have h3: "(0::real) \<le> 5" by simp
  have h4: "1 < length (timings scenarioReady)" by (simp add: scenarioReady_eq)
  have h5: "start (timings scenarioReady ! 1) \<le> 12100" by (simp add: scenarioReady_eq)
  have h6: "12100 < endTime (timings scenarioReady ! 1)" by (simp add: scenarioReady_eq)
  have s0: "start (timings scenarioReady ! 0) = 0" and s1: "start (timings scenarioReady ! 1) = 12000"
    and e1: "endTime (timings scenarioReady ! 1) = 23500"
    by (simp_all add: scenarioReady_eq)
  note cf = crossfade_opacity [OF h1 scenario_built h3 h4 h5 h6, unfolded s0 s1 e1]
  from cf have d: "drawsOf 12100 scenarioReady = [DrawSlide 0 12100 1, DrawSlide 1 100 (1 / 5)]"
    by (simp add: s0)
  from cf have "12100 \<le> (12400::real) \<and> (12400::real) < 23500
      \<longrightarrow> topAlpha 12100 scenarioReady \<le> topAlpha 12400 scenarioReady" by blast
  then have m: "topAlpha 12100 scenarioReady \<le> topAlpha 12400 scenarioReady" by simp
  from cf have z: "topAlpha 12000 scenarioReady = 0" by simp
  from cf have o: "topAlpha 12500 scenarioReady = 1" by simp
  from h1 scenario_built h4 h5 h6 d m z o show ?thesis by simp
qed

section \<open>The narration scheduler\<close>

text \<open>
  Claim C4.  At every point a mounted player reaches, through any interleaving of preload
  and player events, at most one narration source is sounding: none but the one held in
  the node ref.  When a call of \<open>playVoiceTrack\<close> starts a source, it has first stopped
  the source held before, the new source is then the only one sounding, and the
  sounding-track marker names its slide and track.  And over any sequence of ticks and
  redraws after each of which the playhead is in the same slide and phase, at most one
  start is issued.
\<close>

theorem single_narration_source:
  "voiceInv (snd (sysRun (mount ss music sfx td sfxOn) evs))
   \<and> card (soundingVoice (snd (sysRun (mount ss music sfx td sfxOn) evs))) \<le> 1
   \<and> (voiceInv p \<and> VoiceStart n j ty' off' \<in> set (newCommands p (playVoiceTrack i ty off p)) \<longrightarrow>
        soundingVoice (playVoiceTrack i ty off p) = {n}
        \<and> voiceNode (playVoiceTrack i ty off p) = Some n
        \<and> currentAudioTrack (playVoiceTrack i ty off p) = Some (i, ty)
        \<and> newCommands p (playVoiceTrack i ty off p) =
             PlayVoiceTrack i ty off #
             map VoiceStop (case voiceNode p of None \<Rightarrow> [] | Some old \<Rightarrow> [old]) @
             [VoiceStart n i ty (off / 1000)])
   \<and> ((\<forall>e\<in>set es. isTickOrRender e) \<and> (\<forall>q\<in>set (statesAfter r es). activePhase q = Some (k, ph)) \<longrightarrow>
        length (filter isVoiceStart (newCommands r (run r es))) \<le> 1)"
proof -
  have inv: "voiceInv (snd (sysRun (mount ss music sfx td sfxOn) evs))"
    by (rule voiceInv_sysRun [OF voiceInv_mount])
  have ticks: "length (filter isVoiceStart (newCommands r (run r es))) \<le> 1"
    if "\<forall>e\<in>set es. isTickOrRender e" and "\<forall>q\<in>set (statesAfter r es). activePhase q = Some (k, ph)"
  proof -
    from repeated_ticks_starts [OF that] obtain cs where "trace (run r es) = trace r @ cs"
      and "length (filter isVoiceStart cs) \<le> 1" by blast
    then show ?thesis by (simp add: newCommands_def)
  qed
  from inv voiceInv_card [OF inv] playVoiceTrack_start_effect [of p n j ty' off' i ty off] ticks
  show ?thesis by blast
qed

text \<open>
  The theorem at the scenario: the player is mounted, its preload completes, play is
  pressed and a frame runs; a call for the question of slide 0 at 1000 ms starts source 0;
  and the two frames of \<open>readingTicks\<close>, both in the reading phase of slide 0, issue at
  most one start.
\<close>

theorem single_narration_source_witness:
  "voiceInv (snd (sysRun (mount scenarioSlides None None 5 True)
       [TaskEv ImagesSettled, PlayerEv (TogglePlay 0), PlayerEv (AnimationFrame 1000)]))
   \<and> card (soundingVoice (snd (sysRun (mount scenarioSlides None None 5 True)
       [TaskEv ImagesSettled, PlayerEv (TogglePlay 0), PlayerEv (AnimationFrame 1000)]))) \<le> 1
   \<and> voiceInv scenarioPlaying
   \<and> VoiceStart 0 0 Question 1
        \<in> set (newCommands scenarioPlaying (playVoiceTrack 0 Question 1000 scenarioPlaying))
   \<and> soundingVoice (playVoiceTrack 0 Question 1000 scenarioPlaying) = {0}
   \<and> voiceNode (playVoiceTrack 0 Question 1000 scenarioPlaying) = Some 0
   \<and> currentAudioTrack (playVoiceTrack 0 Question 1000 scenarioPlaying) = Some (0, Question)
   \<and> list_all isTickOrRender readingTicks
   \<and> list_all (\<lambda>q. activePhase q = Some (0, Reading)) (statesAfter scenarioPlaying readingTicks)
   \<and> length (filter isVoiceStart (newCommands scenarioPlaying (run scenarioPlaying readingTicks))) \<le> 1"
proof -
  have h1: "voiceInv scenarioPlaying"
    by (simp add: voiceInv_def scenarioPlaying_eq scenarioReady_eq)
  have h2: "VoiceStart 0 0 Question 1
        \<in> set (newCommands scenarioPlaying (playVoiceTrack 0 Question 1000 scenarioPlaying))"
    by (simp add: newCommands_def scenarioPlaying_eq scenarioReady_eq playVoiceTrack_def
        stopVoiceNode_def emit_def duration_def Let_def)
  have h3: "\<forall>e\<in>set readingTicks. isTickOrRender e"
    by (simp add: readingTicks_def)
  have h4: "\<forall>q\<in>set (statesAfter scenarioPlaying readingTicks). activePhase q = Some (0, Reading)"
    by (simp add: scenarioPlaying_eq scenarioReady_eq readingTicks_def player_defs activePhase_def
        phaseAt_def scenarioSlides_def Let_def)
  from single_narration_source [where ss = scenarioSlides and music = None and sfx = None
      and td = 5 and sfxOn = True
      and evs = "[TaskEv ImagesSettled, PlayerEv (TogglePlay 0), PlayerEv (AnimationFrame 1000)]"
      and p = scenarioPlaying and n = 0 and j = 0 and ty' = Question and off' = 1
      and i = 0 and ty = Question and off = 1000
      and es = readingTicks and r = scenarioPlaying and k = 0 and ph = Reading]
    h1 h2 h3 h4
  show ?thesis unfolding list_all_iff by blast
qed

text \<open>
  Claim C10.  When the buffer of the requested narration track is absent,
  \<open>playVoiceTrack\<close> returns having only been called: no source is stopped or started, and
  the node ref, the set of sounding sources and the sounding-track marker are as before.
  In particular, over ticks and redraws in the revealing phase of a slide \<open>k\<close> that has no
  answer buffer, entered with the marker naming the question track of \<open>k\<close> and with the
  player still playing after each of them: the question source is not stopped, the marker
  keeps naming the question track, and every tick calls \<open>playVoiceTrack\<close> for the answer
  again, at the offset of its playhead into the reveal.
\<close>

theorem absent_buffer_retry:
  "((if ty = Question then questionBuffers p else answerBuffers p) i = None \<longrightarrow>
        playVoiceTrack i ty off p = p\<lparr>trace := trace p @ [PlayVoiceTrack i ty off]\<rparr>)
   \<and> ((\<forall>e\<in>set es. isTickOrRender e) \<and> answerBuffers r k = None
        \<and> currentAudioTrack r = Some (k, Question)
        \<and> (\<forall>q\<in>set (statesAfter r es). isPlaying q \<and> activePhase q = Some (k, Revealing)) \<longrightarrow>
        voiceNode (run r es) = voiceNode r \<and> soundingVoice (run r es) = soundingVoice r
        \<and> currentAudioTrack (run r es) = Some (k, Question)
        \<and> filter isVoiceCmd (newCommands r (run r es)) =
             map (\<lambda>q. PlayVoiceTrack k Answer (currentTime q - revealStart (timings q ! k)))
               (map snd (filter (isTick \<circ> fst) (zip es (statesAfter r es)))))"
proof -
  have a: "playVoiceTrack i ty off p = p\<lparr>trace := trace p @ [PlayVoiceTrack i ty off]\<rparr>"
    if "(if ty = Question then questionBuffers p else answerBuffers p) i = None"
    using playVoiceTrack_absent [of p ty i off] that by (simp add: emit_def)
  have b: "voiceNode (run r es) = voiceNode r \<and> soundingVoice (run r es) = soundingVoice r
        \<and> currentAudioTrack (run r es) = Some (k, Question)
        \<and> filter isVoiceCmd (newCommands r (run r es)) =
             map (\<lambda>q. PlayVoiceTrack k Answer (currentTime q - revealStart (timings q ! k)))
               (map snd (filter (isTick \<circ> fst) (zip es (statesAfter r es))))"
    if "\<forall>e\<in>set es. isTickOrRender e" and "answerBuffers r k = None"
      and "currentAudioTrack r = Some (k, Question)"
      and "\<forall>q\<in>set (statesAfter r es). isPlaying q \<and> activePhase q = Some (k, Revealing)"
  proof -
    from absent_answer_run [OF that]
    obtain cs where "voiceNode (run r es) = voiceNode r" "soundingVoice (run r es) = soundingVoice r"
      "currentAudioTrack (run r es) = Some (k, Question)"
      "trace (run r es) = trace r @ cs"
      "filter isVoiceCmd cs =
             map (\<lambda>q. PlayVoiceTrack k Answer (currentTime q - revealStart (timings q ! k)))
               (map snd (filter (isTick \<circ> fst) (zip es (statesAfter r es))))"
      by blast
    then show ?thesis by (simp add: newCommands_def)
  qed
  from a b show ?thesis by blast
qed

text \<open>
  The theorem at the scenario: slide 1 has no answer buffer; from \<open>slideOneReading\<close>,
  where source 0 plays its question, the two frames of \<open>revealTicks\<close> land 100 and 200 ms
  into its reveal and each calls \<open>playVoiceTrack\<close> for the answer, while source 0 remains
  the sounding source and the marker still names the question.
\<close>

theorem absent_buffer_retry_witness:
  "answerBuffers slideOneReading 1 = None
   \<and> playVoiceTrack 1 Answer 100 slideOneReading
        = slideOneReading\<lparr>trace := trace slideOneReading @ [PlayVoiceTrack 1 Answer 100]\<rparr>
   \<and> list_all isTickOrRender revealTicks
   \<and> currentAudioTrack slideOneReading = Some (1, Question)
   \<and> list_all (\<lambda>q. isPlaying q \<and> activePhase q = Some (1, Revealing))
        (statesAfter slideOneReading revealTicks)
   \<and> voiceNode (run slideOneReading revealTicks) = Some 0
   \<and> soundingVoice (run slideOneReading revealTicks) = {0}
   \<and> currentAudioTrack (run slideOneReading revealTicks) = Some (1, Question)
   \<and> filter isVoiceCmd (newCommands slideOneReading (run slideOneReading revealTicks)) =
        [PlayVoiceTrack 1 Answer 100, PlayVoiceTrack 1 Answer 200]"
proof -
  have h1: "answerBuffers slideOneReading 1 = None"
    by (simp add: slideOneReading_eq scenarioReady_eq)
  have h2: "\<forall>e\<in>set revealTicks. isTickOrRender e" by (simp add: revealTicks_def)
  have h3: "currentAudioTrack slideOneReading = Some (1, Question)"
    by (simp add: slideOneReading_eq)
  have st: "map (\<lambda>q. (isPlaying q, activePhase q, currentTime q, revealStart (timings q ! 1)))
       (statesAfter slideOneReading revealTicks) =
     [(True, Some (1, Revealing), 20600, 20500), (True, Some (1, Revealing), 20600, 20500),
      (True, Some (1, Revealing), 20700, 20500), (True, Some (1, Revealing), 20700, 20500)]"
    by (simp add: slideOneReading_eq scenarioReady_eq revealTicks_def player_defs activePhase_def
        phaseAt_def scenarioSlides_def Let_def)
  then have h4: "\<forall>q\<in>set (statesAfter slideOneReading revealTicks).
          isPlaying q \<and> activePhase q = Some (1, Revealing)"
    by (simp add: revealTicks_def)
  from st have calls:
    "map (\<lambda>q. PlayVoiceTrack 1 Answer (currentTime q - revealStart (timings q ! 1)))
       (map snd (filter (isTick \<circ> fst) (zip revealTicks (statesAfter slideOneReading revealTicks))))
     = [PlayVoiceTrack 1 Answer 100, PlayVoiceTrack 1 Answer 200]"
    by (simp add: revealTicks_def)
  have v: "voiceNode slideOneReading = Some 0" "soundingVoice slideOneReading = {0}"
    by (simp_all add: slideOneReading_eq)
  from absent_buffer_retry [where p = slideOneReading and ty = Answer and i = 1 and off = 100
      and es = revealTicks and r = slideOneReading and k = 1]
    h1 h2 h3 h4 calls v
  show ?thesis unfolding list_all_iff by simp
qed

section \<open>The end cue\<close>

text \<open>
  Claim C5 says that each entry into a slide's revealing phase fires the \<open>'end'\<close> cue
  exactly once, also across the cross-fade into the next slide.  In the run \<open>playThrough\<close>
  the playhead enters the revealing phase of slide 0 once, at 9600, and the redraw of that
  frame makes the first \<open>'end'\<close> call.  At 12100 the playhead is in the reading phase of
  slide 1: the tick re-arms the last-tick marker, and the redraw of the cross-fade, which
  draws slide 0 in its revealed state, makes a second \<open>'end'\<close> call.  After each event:
  the playhead, the active slide and phase, and the number of \<open>'end'\<close> calls so far.
\<close>

theorem end_cue_repeats_in_crossfade:
  "map (\<lambda>q. (currentTime q, activePhase q, endCueCalls q)) (statesAfter scenarioReady playThrough) =
     [(0, Some (0, Reading), 0),
      (1000, Some (0, Reading), 0), (1000, Some (0, Reading), 0),
      (5000, Some (0, Thinking), 0), (5000, Some (0, Thinking), 0),
      (9600, Some (0, Revealing), 0), (9600, Some (0, Revealing), 1),
      (11000, Some (0, Revealing), 1), (11000, Some (0, Revealing), 1),
      (12100, Some (1, Reading), 1), (12100, Some (1, Reading), 2)]"
  by (simp add: scenarioReady_eq playThrough_def player_defs activePhase_def phaseAt_def
      endCueCalls_def scenarioSlides_def Let_def)

section \<open>Stopping an export\<close>

text \<open>
  \<open>stopRecording\<close> on an active recorder stops the recorder and toggles the player: it is
  playing afterwards exactly when it was not playing before.
\<close>

lemma stopRecording_toggles:
  assumes "mediaRecorder p = Some Recording"
  shows "mediaRecorder (stopRecording now p) = Some Inactive
       \<and> isPlaying (stopRecording now p) = (\<not> isPlaying p)
       \<and> RecorderStop \<in> set (newCommands p (stopRecording now p))"
  using assms
  by (simp add: stopRecording_def togglePlay_def togglePlayWith_def startBgMusic_def Let_def
      stopVoiceNode_eq stopBgMusicNode_eq emit_def newCommands_def split: option.splits)

text \<open>
  Claim C7 says that stopping an export in progress leaves the recorder stopped and the
  player not playing.  In the run \<open>exportSession\<close> the playback is paused during the export;
  stopping the export then stops the recorder and starts the playback again.  After each
  event: the recorder's state and whether the player is playing.
\<close>

theorem stop_export_resumes_paused_player:
  "map (\<lambda>q. (mediaRecorder q, isPlaying q)) (statesAfter scenarioReady exportSession) =
     [(Some Recording, False), (Some Recording, True), (Some Recording, True),
      (Some Recording, True), (Some Recording, False), (Some Inactive, True)]"
  by (simp add: scenarioReady_eq exportSession_def player_defs scenarioSlides_def Let_def)

section \<open>A cancelled preload\<close>

lemma timingsLoop_cancelled: "timingsLoop True td i ss st = (if ss = [] then Some st else None)"
  by (cases ss) simp_all

lemma guardedState_decodeVoiceovers:
  "cancelled t \<Longrightarrow> guardedState (snd (decodeVoiceovers t c)) = guardedState c"
  by (simp add: decodeVoiceovers_def timingsLoop_cancelled guardedState_def Let_def)

lemma guardedState_preloadImages: "guardedState (snd (preloadImages t c)) = guardedState c"
  by (simp add: preloadImages_def)

lemma guardedState_decodeCountdownSfx:
  "guardedState (snd (decodeCountdownSfx t c)) = guardedState c"
  by (simp add: decodeCountdownSfx_def guardedState_preloadImages) (simp add: guardedState_def)

lemma cancelled_decodeVoiceovers: "cancelled (fst (decodeVoiceovers t c)) = cancelled t"
  by (simp add: decodeVoiceovers_def Let_def split: option.splits)

lemma cancelled_preloadImages: "cancelled (fst (preloadImages t c)) = cancelled t"
  by (simp add: preloadImages_def)

lemma cancelled_decodeCountdownSfx: "cancelled (fst (decodeCountdownSfx t c)) = cancelled t"
  by (simp add: decodeCountdownSfx_def cancelled_preloadImages)

text \<open>
  Once a task is cancelled it stays cancelled, and none of its later steps changes the
  image map, the narration buffer maps, the timings, the total duration or the ready flag.
\<close>

lemma cancelled_taskStep:
  assumes "cancelled t"
  shows "cancelled (fst (taskStep (t, c) e))
       \<and> guardedState (snd (taskStep (t, c) e)) = guardedState c"
proof (cases e)
  case (DecodeResolved b)
  have "guardedState (c\<lparr>bgMusicBuffer := Some b\<rparr>) = guardedState c"
    "guardedState (c\<lparr>countdownSfxBuffer := Some b\<rparr>) = guardedState c"
    by (simp_all add: guardedState_def)
  with assms DecodeResolved show ?thesis
    by (simp add: cancelled_decodeCountdownSfx cancelled_preloadImages
        guardedState_decodeCountdownSfx guardedState_preloadImages)
qed (use assms in \<open>simp_all add: cancelled_decodeCountdownSfx cancelled_preloadImages
        guardedState_decodeCountdownSfx guardedState_preloadImages
        cancelled_decodeVoiceovers guardedState_decodeVoiceovers\<close>)

text \<open>
  Claim C6 says that a cancelled preload leaves, among others, the background-music buffer
  unmodified.  A preload with a music file is cancelled while the decoding of the file is
  pending: the task is cancelled and the music buffer is still empty; when the decoded
  buffer then arrives, the task stores it.
\<close>

theorem cancelled_preload_commits_music:
  "cancelled (fst (sysRun (mount scenarioSlides (Some musicFile) None 5 True)
       [TaskEv BytesResolved, TaskEv Cleanup]))
   \<and> bgMusicBuffer (snd (sysRun (mount scenarioSlides (Some musicFile) None 5 True)
       [TaskEv BytesResolved, TaskEv Cleanup])) = None
   \<and> bgMusicBuffer (snd (sysRun (mount scenarioSlides (Some musicFile) None 5 True)
       [TaskEv BytesResolved, TaskEv Cleanup, TaskEv (DecodeResolved musicBuffer)]))
      = Some musicBuffer"
  by (simp add: sysRun_def preload_defs Let_def)

end
